theory Spec2Isabelle
  imports Complex_Main "HOL-Library.Sublist" "HOL-Library.AList"
begin

section \<open>JavaScript strings and the operator rewrite\<close>

text \<open>
  The controller \<^verbatim>\<open>controllers/bootcamps.js\<close> builds its storage filter from text:
  \<^verbatim>\<open>
    let queryStr = JSON.stringify(reqQuery);
    queryStr = queryStr.replace(/\b(gt|gte|lt|lte|in)\b/g, match => `$${match}`);
    query = Bootcamp.find(JSON.parse(queryStr)).populate('courses');
  \<close>
  so the model works on text as well. A JavaScript string is modelled as a \<open>string\<close>: a list
  of code units below 256. Code units above 255 are outside the model; for the functions
  below they would behave like the units 128..255 (not word characters, not escaped by
  \<^verbatim>\<open>JSON.stringify\<close>), lone surrogates apart.
\<close>

definition dquote :: char where
  "dquote = CHR 0x22"

definition bslash :: char where
  "bslash = CHR 0x5C"

text \<open>The regular expression class \<^verbatim>\<open>\w\<close>: ASCII letters, digits and the underscore.\<close>

definition is_word_char :: "char \<Rightarrow> bool" where
  "is_word_char c =
     (let n = (of_char c :: nat)
      in (48 \<le> n \<and> n \<le> 57) \<or> (65 \<le> n \<and> n \<le> 90) \<or> n = 95 \<or> (97 \<le> n \<and> n \<le> 122))"

text \<open>The alternatives of the group \<^verbatim>\<open>(gt|gte|lt|lte|in)\<close>, in the order the regex tries them.\<close>

definition tokens :: "string list" where
  "tokens = [''gt'', ''gte'', ''lt'', ''lte'', ''in'']"

text \<open>
  The assertion \<^verbatim>\<open>\b\<close> at a position: the character before (\<open>None\<close> at the start of the
  input) and the character after (none at the end) differ in being word characters.
\<close>

definition wordy :: "char option \<Rightarrow> bool" where
  "wordy p = (case p of None \<Rightarrow> False | Some c \<Rightarrow> is_word_char c)"

definition word_boundary :: "char option \<Rightarrow> string \<Rightarrow> bool" where
  "word_boundary p s = (wordy p \<noteq> wordy (case s of [] \<Rightarrow> None | c # _ \<Rightarrow> Some c))"

text \<open>
  One attempt of \<^verbatim>\<open>/\b(gt|gte|lt|lte|in)\b/\<close> at a position: after the leading \<^verbatim>\<open>\b\<close> the
  alternatives are tried in order, and the first one that is a prefix of the input and is
  followed by a \<^verbatim>\<open>\b\<close> is the match.
\<close>

definition match_at :: "char option \<Rightarrow> string \<Rightarrow> string option" where
  "match_at p s =
     (if word_boundary p s
      then find (\<lambda>t. prefix t s \<and> word_boundary (Some (last t)) (drop (length t) s)) tokens
      else None)"

text \<open>
  \<^verbatim>\<open>str.replace(re, match => `$${match}`)\<close> with the global flag: the input is scanned from the
  left; at a match the replacement (a dollar sign and the matched text: the replacement is a
  function, so the dollar sign has no special meaning) is emitted and the scan goes on
  behind the match, elsewhere the character is copied.
\<close>

function replace_from :: "char option \<Rightarrow> string \<Rightarrow> string" where
  "replace_from p s =
     (case match_at p s of
        Some t \<Rightarrow> CHR ''$'' # t @ replace_from (Some (last t)) (drop (length t) s)
      | None \<Rightarrow> (case s of [] \<Rightarrow> [] | c # r \<Rightarrow> c # replace_from (Some c) r))"
  by pat_completeness auto
termination
proof (relation "measure (\<lambda>(p, s). length s)")
  fix p :: "char option" and s t :: string
  assume "match_at p s = Some t"
  then have "t \<in> set tokens" and "prefix t s"
    by (auto simp: match_at_def find_Some_iff split: if_splits)
  then have "t \<noteq> []" and "length t \<le> length s"
    by (auto simp: tokens_def prefix_def)
  then show "((Some (last t), drop (length t) s), (p, s)) \<in> measure (\<lambda>(p, s). length s)"
    by (cases s) auto
qed auto

declare replace_from.simps [simp del]

definition replace_ops :: "string \<Rightarrow> string" where
  "replace_ops s = replace_from None s"

section \<open>Query values, \<^verbatim>\<open>JSON.stringify\<close> and \<^verbatim>\<open>JSON.parse\<close>\<close>

text \<open>
  \<^verbatim>\<open>req.query\<close> is what the query-string parser of the HTTP framework produces: an object
  whose values are strings, arrays (\<^verbatim>\<open>?a=1&a=2\<close>) or nested objects (\<^verbatim>\<open>?price[gte]=5\<close>).
  An object is the list of its properties in enumeration order; the property names of a
  well-formed object are distinct.
\<close>

datatype json = JStr string | JArr "json list" | JObj "(string \<times> json) list"

type_synonym query = "(string \<times> json) list"

text \<open>
  \<^verbatim>\<open>QuoteJSONString\<close>: the quotation mark and the backslash are escaped, the control
  characters below U+0020 too (five of them by a letter, the others as \<^verbatim>\<open>\uXXXX\<close> with
  lower-case hexadecimal digits); every other code unit is copied.
\<close>

definition hex_digit :: "nat \<Rightarrow> char" where
  "hex_digit n = ''0123456789abcdef'' ! n"

definition esc_char :: "char \<Rightarrow> string" where
  "esc_char c =
     (if c = CHR 0x08 then [bslash, CHR ''b'']
      else if c = CHR 0x09 then [bslash, CHR ''t'']
      else if c = CHR 0x0A then [bslash, CHR ''n'']
      else if c = CHR 0x0C then [bslash, CHR ''f'']
      else if c = CHR 0x0D then [bslash, CHR ''r'']
      else if c = dquote then [bslash, dquote]
      else if c = bslash then [bslash, bslash]
      else if (of_char c :: nat) < 32
        then [bslash, CHR ''u'', CHR ''0'', CHR ''0'',
              hex_digit ((of_char c :: nat) div 16), hex_digit ((of_char c :: nat) mod 16)]
      else [c])"

definition esc :: "string \<Rightarrow> string" where
  "esc s = concat (map esc_char s)"

definition quote_json :: "string \<Rightarrow> string" where
  "quote_json s = dquote # esc s @ [dquote]"

text \<open>
  \<^verbatim>\<open>JSON.stringify\<close> on a query value: \<^verbatim>\<open>SerializeJSONArray\<close> and
  \<^verbatim>\<open>SerializeJSONObject\<close> join the serialized parts with commas, with no white space
  (no \<^verbatim>\<open>space\<close> argument is given).
\<close>

fun stringify :: "json \<Rightarrow> string"
  and stringify_elems :: "json list \<Rightarrow> string"
  and stringify_members :: "(string \<times> json) list \<Rightarrow> string" where
  "stringify (JStr s) = quote_json s"
| "stringify (JArr xs) = CHR ''['' # stringify_elems xs @ '']''"
| "stringify (JObj ms) = CHR ''{'' # stringify_members ms @ ''}''"
| "stringify_elems [] = []"
| "stringify_elems [x] = stringify x"
| "stringify_elems (x # y # xs) = stringify x @ CHR '','' # stringify_elems (y # xs)"
| "stringify_members [] = []"
| "stringify_members [(k, v)] = quote_json k @ CHR '':'' # stringify v"
| "stringify_members ((k, v) # m # ms) =
     quote_json k @ CHR '':'' # stringify v @ CHR '','' # stringify_members (m # ms)"

text \<open>
  \<^verbatim>\<open>JSON.parse\<close>, on the fragment of the JSON grammar that \<^verbatim>\<open>JSON.stringify\<close> emits for a
  query value: strings with every escape of the grammar, arrays and objects, no
  insignificant white space, no numbers and no literals. \<open>None\<close> is the \<^verbatim>\<open>SyntaxError\<close>.
  An escape \<^verbatim>\<open>\uXXXX\<close> above 255 names a code unit outside the model and is refused.
\<close>

definition hex_val :: "char \<Rightarrow> nat option" where
  "hex_val c =
     (let n = (of_char c :: nat)
      in if 48 \<le> n \<and> n \<le> 57 then Some (n - 48)
         else if 97 \<le> n \<and> n \<le> 102 then Some (n - 87)
         else if 65 \<le> n \<and> n \<le> 70 then Some (n - 55)
         else None)"

definition hex4 :: "char \<Rightarrow> char \<Rightarrow> char \<Rightarrow> char \<Rightarrow> char option" where
  "hex4 a b c d =
     (case (hex_val a, hex_val b, hex_val c, hex_val d) of
        (Some x, Some y, Some z, Some w) \<Rightarrow>
          (let n = ((x * 16 + y) * 16 + z) * 16 + w
           in if n < 256 then Some (char_of n) else None)
      | _ \<Rightarrow> None)"

definition unescape :: "char \<Rightarrow> char option" where
  "unescape e =
     (if e = dquote then Some dquote
      else if e = bslash then Some bslash
      else if e = CHR ''/'' then Some CHR ''/''
      else if e = CHR ''b'' then Some (CHR 0x08)
      else if e = CHR ''f'' then Some (CHR 0x0C)
      else if e = CHR ''n'' then Some (CHR 0x0A)
      else if e = CHR ''r'' then Some (CHR 0x0D)
      else if e = CHR ''t'' then Some (CHR 0x09)
      else None)"

definition consed :: "char \<Rightarrow> (string \<times> string) option \<Rightarrow> (string \<times> string) option" where
  "consed c r = (case r of None \<Rightarrow> None | Some (s, rest) \<Rightarrow> Some (c # s, rest))"

text \<open>The characters of a string behind its opening quotation mark, up to the closing one.\<close>

fun parse_string_body :: "string \<Rightarrow> (string \<times> string) option" where
  "parse_string_body [] = None"
| "parse_string_body (c # r) =
     (if c = dquote then Some ([], r)
      else if c = bslash then
        (case r of
           [] \<Rightarrow> None
         | e # r' \<Rightarrow>
             if e = CHR ''u'' then
               (case r' of
                  a # b # c' # d # r'' \<Rightarrow>
                    (case hex4 a b c' d of
                       None \<Rightarrow> None
                     | Some u \<Rightarrow> consed u (parse_string_body r''))
                | _ \<Rightarrow> None)
             else
               (case unescape e of
                  None \<Rightarrow> None
                | Some u \<Rightarrow> consed u (parse_string_body r')))
      else if (of_char c :: nat) < 32 then None
      else consed c (parse_string_body r))"

text \<open>
  An object is built property by property (\<^verbatim>\<open>CreateDataProperty\<close>): a name that occurs
  again replaces the value and keeps the place of the first occurrence.
\<close>

definition obj_of_members :: "(string \<times> json) list \<Rightarrow> (string \<times> json) list" where
  "obj_of_members ms = foldl (\<lambda>obj (k, v). AList.update k v obj) [] ms"

text \<open>
  The recursive descent, with the nesting as fuel: every call spends one unit, and
  \<open>JSON_parse\<close> provides more than the text can use.
\<close>

fun parse_value :: "nat \<Rightarrow> string \<Rightarrow> (json \<times> string) option"
  and parse_elems :: "nat \<Rightarrow> string \<Rightarrow> (json list \<times> string) option"
  and parse_members :: "nat \<Rightarrow> string \<Rightarrow> ((string \<times> json) list \<times> string) option" where
  "parse_value 0 s = None"
| "parse_value (Suc n) [] = None"
| "parse_value (Suc n) (c # r) =
     (if c = dquote then
        (case parse_string_body r of None \<Rightarrow> None | Some (s, r') \<Rightarrow> Some (JStr s, r'))
      else if c = CHR ''['' then
        (case r of
           [] \<Rightarrow> None
         | d # r' \<Rightarrow>
             if d = CHR '']'' then Some (JArr [], r')
             else (case parse_elems n r of None \<Rightarrow> None | Some (xs, r'') \<Rightarrow> Some (JArr xs, r'')))
      else if c = CHR ''{'' then
        (case r of
           [] \<Rightarrow> None
         | d # r' \<Rightarrow>
             if d = CHR ''}'' then Some (JObj [], r')
             else (case parse_members n r of
                     None \<Rightarrow> None
                   | Some (ms, r'') \<Rightarrow> Some (JObj (obj_of_members ms), r'')))
      else None)"
| "parse_elems 0 s = None"
| "parse_elems (Suc n) s =
     (case parse_value n s of
        None \<Rightarrow> None
      | Some (x, r) \<Rightarrow>
          (case r of
             [] \<Rightarrow> None
           | d # r' \<Rightarrow>
               if d = CHR '','' then
                 (case parse_elems n r' of None \<Rightarrow> None | Some (xs, r'') \<Rightarrow> Some (x # xs, r''))
               else if d = CHR '']'' then Some ([x], r')
               else None))"
| "parse_members 0 s = None"
| "parse_members (Suc n) s =
     (case s of
        [] \<Rightarrow> None
      | q # r0 \<Rightarrow>
          if q \<noteq> dquote then None
          else
            (case parse_string_body r0 of
               None \<Rightarrow> None
             | Some (k, r1) \<Rightarrow>
                 (case r1 of
                    [] \<Rightarrow> None
                  | col # r2 \<Rightarrow>
                      if col \<noteq> CHR '':'' then None
                      else
                        (case parse_value n r2 of
                           None \<Rightarrow> None
                         | Some (v, r3) \<Rightarrow>
                             (case r3 of
                                [] \<Rightarrow> None
                              | d # r4 \<Rightarrow>
                                  if d = CHR '','' then
                                    (case parse_members n r4 of
                                       None \<Rightarrow> None
                                     | Some (ms, r5) \<Rightarrow> Some ((k, v) # ms, r5))
                                  else if d = CHR ''}'' then Some ([(k, v)], r4)
                                  else None)))))"

datatype js_error = SyntaxError | TypeError

definition JSON_parse :: "string \<Rightarrow> js_error + json" where
  "JSON_parse s =
     (case parse_value (Suc (length s)) s of
        Some (v, []) \<Rightarrow> Inr v
      | _ \<Rightarrow> Inl SyntaxError)"


section \<open>The list endpoint: \<^verbatim>\<open>getBootcamps\<close>\<close>

text \<open>
  \<^verbatim>\<open>
    const reqQuery = { ...req.query };
    const removeFields = ['select', 'sort', 'page', 'limit'];
    removeFields.forEach(field => delete reqQuery[field]);
  \<close>
\<close>

definition removeFields :: "string list" where
  "removeFields = [''select'', ''sort'', ''page'', ''limit'']"

definition strip_reserved :: "query \<Rightarrow> query" where
  "strip_reserved q = fold AList.delete removeFields q"

definition build_filter :: "query \<Rightarrow> js_error + json" where
  "build_filter q = JSON_parse (replace_ops (stringify (JObj (strip_reserved q))))"

text \<open>
  \<^verbatim>\<open>'a,b'.split(',')\<close> and \<^verbatim>\<open>parts.join(' ')\<close>, for the \<^verbatim>\<open>select\<close> and \<^verbatim>\<open>sort\<close>
  parameters.
\<close>

fun split_on :: "char \<Rightarrow> string \<Rightarrow> string list" where
  "split_on d [] = [[]]"
| "split_on d (c # r) =
     (if c = d then [] # split_on d r
      else (case split_on d r of [] \<Rightarrow> [[c]] | p # ps \<Rightarrow> (c # p) # ps))"

fun join_with :: "char \<Rightarrow> string list \<Rightarrow> string" where
  "join_with d [] = []"
| "join_with d [p] = p"
| "join_with d (p # p' # ps) = p @ d # join_with d (p' # ps)"

text \<open>
  \<^verbatim>\<open>if (req.query.select) { ... req.query.select.split(',').join(' ') ... }\<close>: an absent or
  empty parameter is falsy; an array or an object is truthy and has no \<^verbatim>\<open>split\<close> method,
  so the call raises a \<^verbatim>\<open>TypeError\<close>.
\<close>

definition shape_param :: "json option \<Rightarrow> js_error + string option" where
  "shape_param v =
     (case v of
        None \<Rightarrow> Inr None
      | Some (JStr s) \<Rightarrow>
          if s = [] then Inr None else Inr (Some (join_with CHR '' '' (split_on CHR '','' s)))
      | Some _ \<Rightarrow> Inl TypeError)"

text \<open>
  \<^verbatim>\<open>ToString\<close> on a query value, as \<^verbatim>\<open>parseInt\<close> applies it to its argument: a string is
  itself, an array is its elements joined by commas, an object is \<^verbatim>\<open>[object Object]\<close>.
\<close>

fun to_string_js :: "json \<Rightarrow> string"
  and join_js :: "json list \<Rightarrow> string" where
  "to_string_js (JStr s) = s"
| "to_string_js (JArr xs) = join_js xs"
| "to_string_js (JObj ms) = ''[object Object]''"
| "join_js [] = []"
| "join_js [x] = to_string_js x"
| "join_js (x # y # xs) = to_string_js x @ CHR '','' # join_js (y # xs)"

text \<open>
  White space and line terminators (\<^verbatim>\<open>StrWhiteSpaceChar\<close>) among the code units below 256.
\<close>

definition is_js_space :: "char \<Rightarrow> bool" where
  "is_js_space c =
     (c \<in> {CHR 0x09, CHR 0x0A, CHR 0x0B, CHR 0x0C, CHR 0x0D, CHR 0x20, CHR 0xA0})"

definition is_digit :: "char \<Rightarrow> bool" where
  "is_digit c = (48 \<le> (of_char c :: nat) \<and> (of_char c :: nat) \<le> 57)"

definition digits_value :: "string \<Rightarrow> nat" where
  "digits_value ds = foldl (\<lambda>n c. 10 * n + ((of_char c :: nat) - 48)) 0 ds"

text \<open>
  \<^verbatim>\<open>parseInt(string, 10)\<close>: leading white space is dropped, a sign is read, the longest
  prefix of decimal digits is the value; with no digit the result is \<^verbatim>\<open>NaN\<close> (\<open>None\<close>).
  JavaScript numbers are doubles; the model keeps the integer itself, which is the same
  number up to \<open>2^53\<close>.
\<close>

definition parseInt10 :: "string \<Rightarrow> int option" where
  "parseInt10 s =
     (let t = dropWhile is_js_space s;
          neg = (t \<noteq> [] \<and> hd t = CHR ''-'');
          u = (if t \<noteq> [] \<and> (hd t = CHR ''+'' \<or> hd t = CHR ''-'') then tl t else t);
          ds = takeWhile is_digit u
      in if ds = [] then None
         else Some (if neg then - int (digits_value ds) else int (digits_value ds)))"

text \<open>
  \<^verbatim>\<open>parseInt(req.query.page, 10)\<close>: an absent parameter is \<^verbatim>\<open>undefined\<close>, whose string has
  no digit.
\<close>

definition query_int :: "query \<Rightarrow> string \<Rightarrow> int option" where
  "query_int q k =
     (case map_of q k of None \<Rightarrow> None | Some v \<Rightarrow> parseInt10 (to_string_js v))"

text \<open>\<^verbatim>\<open>value || d\<close> on a number: \<^verbatim>\<open>NaN\<close> and zero are falsy.\<close>

definition or_default :: "int option \<Rightarrow> int \<Rightarrow> int" where
  "or_default v d = (case v of None \<Rightarrow> d | Some n \<Rightarrow> if n = 0 then d else n)"

definition page_of :: "query \<Rightarrow> int" where
  "page_of q = or_default (query_int q ''page'') 1"

definition limit_of :: "query \<Rightarrow> int" where
  "limit_of q = or_default (query_int q ''limit'') 25"

text \<open>
  What the handler hands to the storage layer (the filter of \<^verbatim>\<open>find\<close>, the arguments of
  \<^verbatim>\<open>select\<close>, \<^verbatim>\<open>sort\<close>, \<^verbatim>\<open>skip\<close> and \<^verbatim>\<open>limit\<close>) and the \<^verbatim>\<open>pagination\<close> object of its
  response. The documents of the response are the storage layer's answer to that query and
  are not modelled.
\<close>

record page_ref =
  pg_page :: int
  pg_limit :: int

record list_plan =
  q_filter :: json
  q_select :: "string option"
  q_sort :: string
  q_skip :: int
  q_limit :: int
  next_page :: "page_ref option"
  prev_page :: "page_ref option"

text \<open>
  \<^verbatim>\<open>
    const page = parseInt(req.query.page, 10) || 1;
    const limit = parseInt(req.query.limit,10) || 25;
    const startIndex = (page - 1) * limit;
    const endIndex = page * limit;
    const totalEntries = await Bootcamp.countDocuments();
    ...
    if (endIndex < totalEntries) { pagination.next = { page: page + 1, limit } }
    if (startIndex > 0) { pagination.prev = { page: page - 1, limit } }
  \<close>
  \<^verbatim>\<open>countDocuments()\<close> is called with no filter: it counts the whole collection \<open>coll\<close>.
\<close>

definition getBootcamps :: "query \<Rightarrow> 'd list \<Rightarrow> js_error + list_plan" where
  "getBootcamps q coll =
     (case build_filter q of
        Inl e \<Rightarrow> Inl e
      | Inr f \<Rightarrow>
          (case shape_param (map_of q ''select'') of
             Inl e \<Rightarrow> Inl e
           | Inr sel \<Rightarrow>
               (case shape_param (map_of q ''sort'') of
                  Inl e \<Rightarrow> Inl e
                | Inr srt \<Rightarrow>
                    (let page = page_of q;
                         limit = limit_of q;
                         startIndex = (page - 1) * limit;
                         endIndex = page * limit;
                         totalEntries = int (length coll)
                     in Inr \<lparr>q_filter = f,
                             q_select = sel,
                             q_sort = (case srt of None \<Rightarrow> ''-createdAt'' | Some s \<Rightarrow> s),
                             q_skip = startIndex,
                             q_limit = limit,
                             next_page =
                               (if endIndex < totalEntries
                                then Some \<lparr>pg_page = page + 1, pg_limit = limit\<rparr> else None),
                             prev_page =
                               (if startIndex > 0
                                then Some \<lparr>pg_page = page - 1, pg_limit = limit\<rparr> else None)\<rparr>))))"

text \<open>
  Exact-match filtering, the storage engine's reading of a filter whose values are
  literals: a document satisfies the filter when it carries each field of the filter with
  that value. It stands for the storage layer where a statement counts the records that
  match a filter.
\<close>

definition exact_match :: "json \<Rightarrow> json \<Rightarrow> bool" where
  "exact_match f d =
     (case (f, d) of
        (JObj fs, JObj ds) \<Rightarrow> list_all (\<lambda>(k, v). map_of ds k = Some v) fs
      | _ \<Rightarrow> False)"


section \<open>Numbers from strings\<close>

text \<open>
  A JavaScript number: \<^verbatim>\<open>NaN\<close>, an infinity, or a finite value. A finite value is kept as
  the rational it denotes; the rounding to a double is not modelled, so the model is exact
  on the integers up to \<open>2^53\<close> and on every comparison between them.
\<close>

datatype jsnum = NaN | PosInf | NegInf | Fin rat

definition trim_js :: "string \<Rightarrow> string" where
  "trim_js s = rev (dropWhile is_js_space (rev (dropWhile is_js_space s)))"

definition radix_digits :: "nat \<Rightarrow> string \<Rightarrow> nat option" where
  "radix_digits b ds =
     (if ds \<noteq> [] \<and> list_all (\<lambda>c. case hex_val c of None \<Rightarrow> False | Some v \<Rightarrow> v < b) ds
      then Some (foldl (\<lambda>n c. b * n + (case hex_val c of None \<Rightarrow> 0 | Some v \<Rightarrow> v)) 0 ds)
      else None)"

text \<open>\<^verbatim>\<open>NonDecimalIntegerLiteral\<close>: \<^verbatim>\<open>0x1F\<close>, \<^verbatim>\<open>0o17\<close>, \<^verbatim>\<open>0b101\<close>; no sign is allowed.\<close>

definition non_decimal :: "string \<Rightarrow> nat option" where
  "non_decimal s =
     (case s of
        z # x # ds \<Rightarrow>
          if z \<noteq> CHR ''0'' then None
          else if x = CHR ''x'' \<or> x = CHR ''X'' then radix_digits 16 ds
          else if x = CHR ''o'' \<or> x = CHR ''O'' then radix_digits 8 ds
          else if x = CHR ''b'' \<or> x = CHR ''B'' then radix_digits 2 ds
          else None
      | _ \<Rightarrow> None)"

text \<open>\<^verbatim>\<open>ExponentPart\<close>, or nothing: what may follow the digits of a decimal literal.\<close>

definition exponent_part :: "string \<Rightarrow> int option" where
  "exponent_part r =
     (case r of
        [] \<Rightarrow> Some 0
      | e # r1 \<Rightarrow>
          if e \<noteq> CHR ''e'' \<and> e \<noteq> CHR ''E'' then None
          else
            (let neg = (r1 \<noteq> [] \<and> hd r1 = CHR ''-'');
                 r2 = (if r1 \<noteq> [] \<and> (hd r1 = CHR ''+'' \<or> hd r1 = CHR ''-'') then tl r1 else r1)
             in if r2 \<noteq> [] \<and> list_all is_digit r2
                then Some (if neg then - int (digits_value r2) else int (digits_value r2))
                else None))"

text \<open>
  \<^verbatim>\<open>StrUnsignedDecimalLiteral\<close> without \<^verbatim>\<open>Infinity\<close>: digits, an optional point with
  digits, an optional exponent; there is a digit before or behind the point.
\<close>

definition unsigned_decimal :: "string \<Rightarrow> rat option" where
  "unsigned_decimal u =
     (let ip = takeWhile is_digit u;
          r1 = dropWhile is_digit u;
          dot = (r1 \<noteq> [] \<and> hd r1 = CHR ''.'');
          fp = (if dot then takeWhile is_digit (tl r1) else []);
          r2 = (if dot then dropWhile is_digit (tl r1) else r1)
      in if ip = [] \<and> fp = [] then None
         else
           (case exponent_part r2 of
              None \<Rightarrow> None
            | Some e \<Rightarrow>
                Some ((of_nat (digits_value ip) + of_nat (digits_value fp) / 10 ^ length fp)
                      * (if 0 \<le> e then 10 ^ nat e else 1 / 10 ^ nat (- e)))))"

text \<open>
  \<^verbatim>\<open>ToNumber\<close> on a string (\<^verbatim>\<open>StringToNumber\<close>): white space is trimmed on both sides,
  the empty string is zero, and a text outside the grammar of numeric literals is
  \<^verbatim>\<open>NaN\<close>. It is what the operators \<^verbatim>\<open>/\<close> and \<^verbatim>\<open>>\<close> apply to a string operand.
\<close>

definition to_number :: "string \<Rightarrow> jsnum" where
  "to_number s =
     (let t = trim_js s
      in if t = [] then Fin 0
         else
           (case non_decimal t of
              Some n \<Rightarrow> Fin (of_nat n)
            | None \<Rightarrow>
                (let neg = (hd t = CHR ''-'');
                     u = (if hd t = CHR ''+'' \<or> hd t = CHR ''-'' then tl t else t)
                 in if u = ''Infinity'' then (if neg then NegInf else PosInf)
                    else
                      (case unsigned_decimal u of
                         None \<Rightarrow> NaN
                       | Some r \<Rightarrow> Fin (if neg then - r else r)))))"

text \<open>Division of a number by a positive finite constant.\<close>

definition num_div :: "jsnum \<Rightarrow> rat \<Rightarrow> jsnum" where
  "num_div x d = (case x of Fin r \<Rightarrow> Fin (r / d) | y \<Rightarrow> y)"

text \<open>\<^verbatim>\<open>size > y\<close> for a finite number \<open>size\<close>: false when \<open>y\<close> is \<^verbatim>\<open>NaN\<close>.\<close>

definition num_gt :: "rat \<Rightarrow> jsnum \<Rightarrow> bool" where
  "num_gt x y = (case y of NaN \<Rightarrow> False | PosInf \<Rightarrow> False | NegInf \<Rightarrow> True | Fin m \<Rightarrow> m < x)"

section \<open>What a handler does with a request\<close>

text \<open>
  A handler ends by sending a JSON response with a status, by calling
  \<^verbatim>\<open>next(new ErrorResponse(message, statusCode))\<close>, by raising a JavaScript error, or because
  a promise it awaits is rejected by a collaborator with an error \<open>'e\<close>. The last two leave
  the handler function; what becomes of them is decided by the wrapper \<^verbatim>\<open>asyncHandler\<close>
  and the error responder, which are not part of the handlers.
\<close>

datatype ('e, 'b) outcome =
    Json nat 'b
  | Next string nat
  | Raises js_error
  | Rejects 'e

section \<open>The radius endpoint: \<^verbatim>\<open>getBootcampsInRadius\<close>\<close>

record 'c geo_point =
  latitude :: 'c
  longitude :: 'c

text \<open>
  The filter \<^verbatim>\<open>{ location: { $geoWithin: { $centerSphere: [[lng, lat], radius] } } }\<close>.
\<close>

record 'c sphere_filter =
  center_lng :: 'c
  center_lat :: 'c
  radius :: jsnum

record 'd found_body =
  found_count :: nat
  found_data :: "'d list"

text \<open>
  \<^verbatim>\<open>
    const { zipcode, distance } = req.params;
    const loc = await geocoder.geocode(zipcode);
    const lat = loc[0].latitude;
    const lng = loc[0].longitude;
    const radius = distance / 6378;
    const bootcamps = await Bootcamp.find({ location: { $geoWithin: ... } });
    res.status(200).json({ success: true, count: bootcamps.length, data: bootcamps });
  \<close>
  The geocoder and the storage layer are parameters. \<^verbatim>\<open>distance\<close> is a route parameter, a
  string; the division converts it with \<^verbatim>\<open>ToNumber\<close>. With no location found, \<^verbatim>\<open>loc[0]\<close> is
  \<^verbatim>\<open>undefined\<close> and reading its latitude raises a \<^verbatim>\<open>TypeError\<close>.
\<close>

definition getBootcampsInRadius ::
  "(string \<Rightarrow> 'e + 'c geo_point list) \<Rightarrow> ('c sphere_filter \<Rightarrow> 'e + 'd list) \<Rightarrow>
   string \<Rightarrow> string \<Rightarrow> ('e, 'd found_body) outcome" where
  "getBootcampsInRadius geocode find_docs zipcode distance =
     (case geocode zipcode of
        Inl e \<Rightarrow> Rejects e
      | Inr [] \<Rightarrow> Raises TypeError
      | Inr (l # ls) \<Rightarrow>
          (let lat = latitude l;
               lng = longitude l;
               rad = num_div (to_number distance) 6378
           in case find_docs \<lparr>center_lng = lng, center_lat = lat, radius = rad\<rparr> of
                Inl e \<Rightarrow> Rejects e
              | Inr bootcamps \<Rightarrow>
                  Json 200 \<lparr>found_count = length bootcamps, found_data = bootcamps\<rparr>))"

section \<open>The photo upload: \<^verbatim>\<open>bootcampPhotoUpload\<close>\<close>

record upfile =
  file_name :: string
  mimetype :: string
  file_size :: nat

text \<open>The environment variables the handler reads; an unset variable is \<^verbatim>\<open>undefined\<close>.\<close>

record env =
  MAX_FILE_UPLOAD :: "string option"
  FILE_UPLOAD_PATH :: "string option"

definition show_env :: "string option \<Rightarrow> string" where
  "show_env v = (case v of None \<Rightarrow> ''undefined'' | Some s \<Rightarrow> s)"

text \<open>
  The collaborators of the upload: the lookup \<^verbatim>\<open>Bootcamp.findById\<close>, the identifier of a
  document as text, the extension \<^verbatim>\<open>path.parse(name).ext\<close>, the move \<^verbatim>\<open>file.mv\<close> (its
  callback receives an error or nothing) and the update \<^verbatim>\<open>Bootcamp.findByIdAndUpdate\<close>.
\<close>

record ('e, 'b) upload_deps =
  findById :: "string \<Rightarrow> 'e + 'b option"
  id_text :: "'b \<Rightarrow> string"
  path_ext :: "string \<Rightarrow> string"
  mv :: "string \<Rightarrow> 'e option"
  update_photo :: "string \<Rightarrow> string \<Rightarrow> 'e option"

text \<open>
  \<^verbatim>\<open>
    const bootcamp = await Bootcamp.findById(req.params.id);
    if (!bootcamp) { return next(new ErrorResponse(`Bootcamp id ${req.params.id} not found`, 404)); }
    if (!req.files) { return next(new ErrorResponse(`Please upload a file`, 400)); }
    const file = req.files.file;
    if (!file.mimetype.startsWith('image')) {
        return next(new ErrorResponse(`Please upload an image file`, 400)); }
    if (file.size > process.env.MAX_FILE_UPLOAD) {
        return next(new ErrorResponse(
          `Please upload an image less than ${process.env.MAX_FILE_UPLOAD} bytes`, 400)); }
    file.name = `photo_${bootcamp._id}${path.parse(file.name).ext}`;
    file.mv(`${process.env.FILE_UPLOAD_PATH}/${file.name}`, async (err) => {
        if (err) { ... return next(new ErrorResponse(
                       `Problem with file upload. Please try again.`, 500)); }
        await Bootcamp.findByIdAndUpdate(req.params.id, { photo: file.name });
        res.status(200).json({ success: true, data: file.name }) });
  \<close>
  \<^verbatim>\<open>req.files\<close> is absent or an object of uploaded files by field name; with no field
  \<^verbatim>\<open>file\<close> in it, reading the mimetype raises a \<^verbatim>\<open>TypeError\<close>. The size is a number and
  the environment variable a string, so \<^verbatim>\<open>>\<close> compares the size with \<^verbatim>\<open>ToNumber\<close> of the
  variable.
\<close>

definition size_message :: "env \<Rightarrow> string" where
  "size_message ev =
     ''Please upload an image less than '' @ show_env (MAX_FILE_UPLOAD ev) @ '' bytes''"

text \<open>
  The end of the handler, behind the four checks: the file is renamed and moved, and the
  document updated. A rejection of the update happens inside the callback of the move.
\<close>

definition store_photo ::
  "('e, 'b) upload_deps \<Rightarrow> env \<Rightarrow> string \<Rightarrow> 'b \<Rightarrow> upfile \<Rightarrow> ('e, string) outcome" where
  "store_photo deps ev rid bootcamp file =
     (let name = ''photo_'' @ id_text deps bootcamp @ path_ext deps (file_name file)
      in case mv deps (show_env (FILE_UPLOAD_PATH ev) @ ''/'' @ name) of
           Some err \<Rightarrow> Next ''Problem with file upload. Please try again.'' 500
         | None \<Rightarrow>
             (case update_photo deps rid name of
                Some e \<Rightarrow> Rejects e
              | None \<Rightarrow> Json 200 name))"

definition bootcampPhotoUpload ::
  "('e, 'b) upload_deps \<Rightarrow> env \<Rightarrow> string \<Rightarrow> (string \<times> upfile) list option \<Rightarrow>
   ('e, string) outcome" where
  "bootcampPhotoUpload deps ev rid files =
     (case findById deps rid of
        Inl e \<Rightarrow> Rejects e
      | Inr None \<Rightarrow> Next (''Bootcamp id '' @ rid @ '' not found'') 404
      | Inr (Some bootcamp) \<Rightarrow>
          (case files of
             None \<Rightarrow> Next ''Please upload a file'' 400
           | Some fs \<Rightarrow>
               (case map_of fs ''file'' of
                  None \<Rightarrow> Raises TypeError
                | Some file \<Rightarrow>
                    if \<not> prefix ''image'' (mimetype file) then
                      Next ''Please upload an image file'' 400
                    else if num_gt (of_nat (file_size file))
                              (case MAX_FILE_UPLOAD ev of None \<Rightarrow> NaN | Some m \<Rightarrow> to_number m) then
                      Next (size_message ev) 400
                    else store_photo deps ev rid bootcamp file)))"


section \<open>The filter, described on the query itself\<close>

text \<open>
  The functions of this section are not code of the controller: they say, on the query
  value, what the text pipeline of \<open>build_filter\<close> computes, and the lemmas below prove that
  it does. \<open>rewrite\<close> puts a dollar sign before every maximal run of word characters that
  is one of the five tokens, unless the run directly follows a control character (in the
  serialized text such a character ends in a letter or a digit, so no word starts there).
\<close>

definition is_ctrl :: "char \<Rightarrow> bool" where
  "is_ctrl c = ((of_char c :: nat) < 32)"

fun rewrite_from :: "bool \<Rightarrow> string \<Rightarrow> string" where
  "rewrite_from w [] = []"
| "rewrite_from w (c # r) =
     (if \<not> w \<and> takeWhile is_word_char (c # r) \<in> set tokens then ''$'' else [])
       @ c # rewrite_from (is_word_char c \<or> is_ctrl c) r"

definition rewrite :: "string \<Rightarrow> string" where
  "rewrite s = rewrite_from False s"

text \<open>The inverse of \<open>rewrite\<close>: a dollar sign that stands before a token run is removed.\<close>

fun unrewrite :: "string \<Rightarrow> string" where
  "unrewrite [] = []"
| "unrewrite (c # r) =
     (if c = CHR ''$'' \<and> takeWhile is_word_char r \<in> set tokens then unrewrite r
      else c # unrewrite r)"

text \<open>A function on strings, applied to every property name and every string of a value.\<close>

fun map_json :: "(string \<Rightarrow> string) \<Rightarrow> json \<Rightarrow> json"
  and map_elems :: "(string \<Rightarrow> string) \<Rightarrow> json list \<Rightarrow> json list"
  and map_members :: "(string \<Rightarrow> string) \<Rightarrow> (string \<times> json) list \<Rightarrow> (string \<times> json) list" where
  "map_json f (JStr s) = JStr (f s)"
| "map_json f (JArr xs) = JArr (map_elems f xs)"
| "map_json f (JObj ms) = JObj (map_members f ms)"
| "map_elems f [] = []"
| "map_elems f (x # xs) = map_json f x # map_elems f xs"
| "map_members f [] = []"
| "map_members f ((k, v) # ms) = (f k, map_json f v) # map_members f ms"

text \<open>
  The value a member list denotes once every object in it is built property by property.
\<close>

fun norm_json :: "json \<Rightarrow> json"
  and norm_elems :: "json list \<Rightarrow> json list"
  and norm_members :: "(string \<times> json) list \<Rightarrow> (string \<times> json) list" where
  "norm_json (JStr s) = JStr s"
| "norm_json (JArr xs) = JArr (norm_elems xs)"
| "norm_json (JObj ms) = JObj (obj_of_members (norm_members ms))"
| "norm_elems [] = []"
| "norm_elems (x # xs) = norm_json x # norm_elems xs"
| "norm_members [] = []"
| "norm_members ((k, v) # ms) = (k, norm_json v) # norm_members ms"

text \<open>Well-formed values: the property names of every object are distinct.\<close>

fun wf_json :: "json \<Rightarrow> bool"
  and wf_elems :: "json list \<Rightarrow> bool"
  and wf_members :: "(string \<times> json) list \<Rightarrow> bool" where
  "wf_json (JStr s) = True"
| "wf_json (JArr xs) = wf_elems xs"
| "wf_json (JObj ms) = (distinct (map fst ms) \<and> wf_members ms)"
| "wf_elems [] = True"
| "wf_elems (x # xs) = (wf_json x \<and> wf_elems xs)"
| "wf_members [] = True"
| "wf_members ((k, v) # ms) = (wf_json v \<and> wf_members ms)"

text \<open>A query whose values are all strings, as the contract of the list pipeline has it.\<close>

definition string_valued :: "query \<Rightarrow> bool" where
  "string_valued q = list_all (\<lambda>(k, v). case v of JStr s \<Rightarrow> True | _ \<Rightarrow> False) q"

section \<open>The operator rewrite on text\<close>

lemma token_words: "t \<in> set tokens \<Longrightarrow> t \<noteq> [] \<and> (\<forall>c \<in> set t. is_word_char c)"
  by (auto simp: tokens_def is_word_char_def)

lemma alt_matches_iff:
  assumes "t \<noteq> []" and "\<forall>c \<in> set t. is_word_char c"
  shows "(prefix t s \<and> word_boundary (Some (last t)) (drop (length t) s))
         \<longleftrightarrow> takeWhile is_word_char s = t"
proof
  assume h: "prefix t s \<and> word_boundary (Some (last t)) (drop (length t) s)"
  then obtain r where s: "s = t @ r" by (auto simp: prefix_def)
  from assms have "is_word_char (last t)" by simp
  with h s have "r = [] \<or> \<not> is_word_char (hd r)"
    by (cases r) (auto simp: word_boundary_def wordy_def)
  with assms s show "takeWhile is_word_char s = t"
    by (cases r) (auto simp: takeWhile_append)
    
next
  assume tw: "takeWhile is_word_char s = t"
  have s: "s = t @ dropWhile is_word_char s"
    using takeWhile_dropWhile_id [of is_word_char s] tw by simp
  then have p: "prefix t s" by (metis prefixI)
  have d: "drop (length t) s = dropWhile is_word_char s"
    using s by (metis append_eq_conv_conj)
  define r where "r = dropWhile is_word_char s"
  have "r = [] \<or> \<not> is_word_char (hd r)"
    unfolding r_def by (metis hd_dropWhile)
  moreover from assms have "is_word_char (last t)" by simp
  ultimately have "word_boundary (Some (last t)) r"
    by (cases r) (auto simp: word_boundary_def wordy_def)
  then have "word_boundary (Some (last t)) (drop (length t) s)"
    by (simp add: d r_def)
  with p show "prefix t s \<and> word_boundary (Some (last t)) (drop (length t) s)" by simp
qed

lemma match_at_eq:
  "match_at p s =
     (if \<not> wordy p \<and> takeWhile is_word_char s \<in> set tokens
      then Some (takeWhile is_word_char s) else None)"
proof -
  have find_eq: "find (\<lambda>t. prefix t s \<and> word_boundary (Some (last t)) (drop (length t) s)) tokens
       = find (\<lambda>t. takeWhile is_word_char s = t) tokens"
    by (rule find_cong) (auto simp: alt_matches_iff token_words)
  have find2: "find (\<lambda>t. takeWhile is_word_char s = t) tokens
       = (if takeWhile is_word_char s \<in> set tokens then Some (takeWhile is_word_char s) else None)"
    by (auto simp: tokens_def)
  show ?thesis
  proof (cases "takeWhile is_word_char s \<in> set tokens")
    case True
    then have "takeWhile is_word_char s \<noteq> []" by (auto simp: tokens_def)
    then have "s \<noteq> [] \<and> is_word_char (hd s)" by (cases s) (auto split: if_splits)
    then have "word_boundary p s = (\<not> wordy p)"
      by (cases s) (auto simp: word_boundary_def wordy_def)
    with True show ?thesis by (simp add: match_at_def find_eq find2)
  next
    case False
    then show ?thesis by (simp add: match_at_def find_eq find2)
  qed
qed

lemma replace_from_Nil [simp]: "replace_from p [] = []"
  by (subst replace_from.simps) (simp add: match_at_eq tokens_def)

lemma replace_from_word_run:
  "wordy p \<Longrightarrow> \<forall>c \<in> set t. is_word_char c \<Longrightarrow>
   replace_from p (t @ r) = t @ replace_from (if t = [] then p else Some (last t)) r"
proof (induction t arbitrary: p)
  case Nil
  then show ?case by simp
next
  case (Cons a t)
  have "replace_from p (a # t @ r) = a # replace_from (Some a) (t @ r)"
    using Cons.prems by (subst replace_from.simps) (simp add: match_at_eq)
  moreover have "wordy (Some a)" using Cons.prems by (simp add: wordy_def)
  ultimately show ?case using Cons.IH [of "Some a"] Cons.prems by simp
qed

lemma replace_from_Cons:
  "replace_from p (c # r) =
     (if \<not> wordy p \<and> takeWhile is_word_char (c # r) \<in> set tokens then ''$'' else [])
       @ c # replace_from (Some c) r"
proof (cases "\<not> wordy p \<and> takeWhile is_word_char (c # r) \<in> set tokens")
  case False
  then have "match_at p (c # r) = None" unfolding match_at_eq by (rule if_not_P)
  then have "replace_from p (c # r) = c # replace_from (Some c) r"
    by (subst replace_from.simps) simp
  with False show ?thesis by (simp only: if_False append_Nil)
next
  case True
  define t where "t = takeWhile is_word_char (c # r)"
  from True have tok: "t \<in> set tokens" by (simp add: t_def)
  then have ne: "t \<noteq> []" by (simp add: token_words)
  then have c: "is_word_char c" and t: "t = c # takeWhile is_word_char r"
    by (auto simp: t_def split: if_splits)
  have r: "r = takeWhile is_word_char r @ dropWhile is_word_char r" by simp
  have d: "drop (length t) (c # r) = dropWhile is_word_char r"
    by (simp add: t) (metis append_eq_conv_conj r)
  from True have "match_at p (c # r) = Some t" unfolding match_at_eq t_def by (rule if_P)
  then have "replace_from p (c # r) = CHR ''$'' # t @ replace_from (Some (last t)) (dropWhile is_word_char r)"
    by (subst replace_from.simps) (simp add: d)
  moreover have "replace_from (Some c) r
      = takeWhile is_word_char r @ replace_from (Some (last t)) (dropWhile is_word_char r)"
  proof -
    have w: "wordy (Some c)" using c by (simp add: wordy_def)
    have a: "\<forall>x \<in> set (takeWhile is_word_char r). is_word_char x"
      by (auto dest: set_takeWhileD)
    show ?thesis
      using replace_from_word_run [OF w a, of "dropWhile is_word_char r"] by (simp add: t)
  qed
  ultimately show ?thesis using True by (simp add: t)
qed

lemma replace_from_wordy_cong:
  "wordy p = wordy q \<Longrightarrow> replace_from p s = replace_from q s"
  by (cases s) (simp_all add: replace_from_Cons)

lemma replace_from_nonword:
  "\<not> is_word_char d \<Longrightarrow> replace_from p (d # u) = d # replace_from (Some d) u"
  by (simp add: replace_from_Cons tokens_def)

lemma Nil_not_token [simp]: "[] \<notin> set tokens"
  by (simp add: tokens_def)

lemma token_hd: "t \<in> set tokens \<Longrightarrow> hd t \<in> {CHR ''g'', CHR ''l'', CHR ''i''}"
  by (auto simp: tokens_def)

lemma hex_digits_ok:
  "list_all (\<lambda>k. is_word_char (hex_digit k) \<and> hex_val (hex_digit k) = Some k) [0..<16]"
  by code_simp

lemma hex_digit_word: "k < 16 \<Longrightarrow> is_word_char (hex_digit k)"
  using hex_digits_ok by (simp only: list_all_iff) simp

lemma hex_val_hex_digit: "k < 16 \<Longrightarrow> hex_val (hex_digit k) = Some k"
  using hex_digits_ok by (simp only: list_all_iff) simp

lemma ctrl_not_word: "is_ctrl c \<Longrightarrow> \<not> is_word_char c"
  by (auto simp: is_ctrl_def is_word_char_def Let_def)

text \<open>The three shapes of an escaped character.\<close>

lemma special_not_ctrl: "\<not> is_ctrl dquote" "\<not> is_ctrl bslash"
  by (simp_all add: is_ctrl_def dquote_def bslash_def)

lemma esc_char_plain:
  "\<not> is_ctrl c \<Longrightarrow> c \<noteq> dquote \<Longrightarrow> c \<noteq> bslash \<Longrightarrow> esc_char c = [c]"
  by (auto simp: esc_char_def is_ctrl_def)

lemma esc_char_special:
  "esc_char dquote = [bslash, dquote]" "esc_char bslash = [bslash, bslash]"
  by (simp_all add: esc_char_def dquote_def bslash_def)

lemma word_letters:
  "is_word_char CHR ''b''" "is_word_char CHR ''t''" "is_word_char CHR ''n''"
  "is_word_char CHR ''f''" "is_word_char CHR ''r''" "is_word_char CHR ''u''"
  "is_word_char CHR ''0''"
  by (simp_all add: is_word_char_def)

lemma esc_char_ctrl:
  assumes "is_ctrl c"
  shows "\<exists>x xs. esc_char c = bslash # x # xs \<and> is_word_char x
           \<and> x \<notin> {CHR ''g'', CHR ''l'', CHR ''i''} \<and> (\<forall>y \<in> set xs. is_word_char y)"
proof (cases "c = CHR 0x08 \<or> c = CHR 0x09 \<or> c = CHR 0x0A \<or> c = CHR 0x0C \<or> c = CHR 0x0D")
  case True
  then show ?thesis
    by (elim disjE) (simp_all add: esc_char_def word_letters)
next
  case False
  from assms have lt: "(of_char c :: nat) div 16 < 16" "(of_char c :: nat) mod 16 < 16"
    by (auto simp: is_ctrl_def)
  from assms have "c \<noteq> dquote" "c \<noteq> bslash"
    using special_not_ctrl by auto
  with False assms have "esc_char c = bslash # CHR ''u'' # [CHR ''0'', CHR ''0'',
            hex_digit ((of_char c :: nat) div 16), hex_digit ((of_char c :: nat) mod 16)]"
    by (simp add: esc_char_def is_ctrl_def)
  moreover have "\<forall>y \<in> set [CHR ''0'', CHR ''0'',
            hex_digit ((of_char c :: nat) div 16), hex_digit ((of_char c :: nat) mod 16)]. is_word_char y"
    using lt by (simp add: hex_digit_word word_letters)
  moreover have "CHR ''u'' \<notin> {CHR ''g'', CHR ''l'', CHR ''i''}" by simp
  ultimately show ?thesis using word_letters(6) by blast
qed

lemma esc_char_cases:
  obtains (plain) "esc_char c = [c]" "\<not> is_ctrl c" "c \<noteq> dquote" "c \<noteq> bslash"
  | (special) "esc_char c = [bslash, c]" "c = dquote \<or> c = bslash" "\<not> is_ctrl c"
  | (ctrl) x xs where "esc_char c = bslash # x # xs" "is_ctrl c" "is_word_char x"
      "x \<notin> {CHR ''g'', CHR ''l'', CHR ''i''}" "\<forall>y \<in> set xs. is_word_char y"
proof (cases "is_ctrl c")
  case True
  from esc_char_ctrl [OF True] obtain x xs where "esc_char c = bslash # x # xs" "is_word_char x"
      "x \<notin> {CHR ''g'', CHR ''l'', CHR ''i''}" "\<forall>y \<in> set xs. is_word_char y"
    by blast
  then show thesis using True ctrl by blast
next
  case nc: False
  show thesis
  proof (cases "c = dquote \<or> c = bslash")
    case True
    then have "esc_char c = [bslash, c]" using esc_char_special by auto
    then show thesis using True nc by (rule special)
  next
    case False
    then have "esc_char c = [c]" using nc by (simp add: esc_char_plain)
    then show thesis using nc False by (auto intro: plain)
  qed
qed

lemma esc_simps [simp]:
  "esc [] = []" "esc (c # s) = esc_char c @ esc s" "esc (s @ t) = esc s @ esc t"
  by (simp_all add: esc_def)

lemma nonword_marks [simp]: "\<not> is_word_char bslash" "\<not> is_word_char dquote"
  by (simp_all add: bslash_def dquote_def is_word_char_def)

lemma esc_char_hd_word:
  "is_word_char c \<Longrightarrow> esc_char c = [c]"
  "\<not> is_word_char c \<Longrightarrow> \<exists>x xs. esc_char c = x # xs \<and> \<not> is_word_char x"
proof -
  show "is_word_char c \<Longrightarrow> esc_char c = [c]"
    by (cases c rule: esc_char_cases) (auto dest: ctrl_not_word)
  show "\<not> is_word_char c \<Longrightarrow> \<exists>x xs. esc_char c = x # xs \<and> \<not> is_word_char x"
    by (cases c rule: esc_char_cases) auto
qed

lemma takeWhile_esc:
  "\<not> is_word_char d \<Longrightarrow>
   takeWhile is_word_char (esc s @ d # u) = takeWhile is_word_char s"
proof (induction s)
  case Nil
  then show ?case by simp
next
  case (Cons a s)
  show ?case
  proof (cases "is_word_char a")
    case True
    then show ?thesis using Cons by (simp add: esc_char_hd_word)
  next
    case False
    then obtain x xs where "esc_char a = x # xs" "\<not> is_word_char x"
      using esc_char_hd_word(2) by blast
    with False show ?thesis by simp
  qed
qed

lemma esc_dollar: "esc_char CHR ''$'' = ''$''"
  by (simp add: esc_char_def dquote_def bslash_def)

lemma replace_esc:
  "\<not> is_word_char d \<Longrightarrow>
   replace_from p (esc s @ d # u) = esc (rewrite_from (wordy p) s) @ d # replace_from (Some d) u"
proof (induction s arbitrary: p)
  case Nil
  then show ?case by (simp add: replace_from_nonword)
next
  case (Cons a s)
  note nw = Cons.prems
  show ?case
  proof (cases a rule: esc_char_cases)
    case plain
    have tw: "takeWhile is_word_char (a # esc s @ d # u) = takeWhile is_word_char (a # s)"
      using nw by (simp add: takeWhile_esc)
    have "replace_from p (esc (a # s) @ d # u) =
        (if \<not> wordy p \<and> takeWhile is_word_char (a # s) \<in> set tokens then ''$'' else [])
        @ a # replace_from (Some a) (esc s @ d # u)"
      using plain(1) by (simp only: esc_simps append_Cons append_Nil replace_from_Cons tw)
    also have "replace_from (Some a) (esc s @ d # u)
        = esc (rewrite_from (is_word_char a) s) @ d # replace_from (Some d) u"
      using Cons.IH [OF nw, of "Some a"] by (simp add: wordy_def)
    finally show ?thesis using plain by (simp add: esc_dollar)
  next
    case special
    then have nwa: "\<not> is_word_char a" "\<not> is_word_char bslash"
      by (auto simp: dquote_def bslash_def is_word_char_def)
    have "replace_from p (esc (a # s) @ d # u) = bslash # a # replace_from (Some a) (esc s @ d # u)"
      using special(1) nwa by (simp add: replace_from_nonword)
    also have "replace_from (Some a) (esc s @ d # u)
        = esc (rewrite_from False s) @ d # replace_from (Some d) u"
      using Cons.IH [OF nw, of "Some a"] nwa by (simp add: wordy_def)
    finally show ?thesis using special nwa by simp
  next
    case (ctrl x xs)
    have nwb: "\<not> is_word_char bslash" by (simp add: bslash_def is_word_char_def)
    have nwa: "\<not> is_word_char a" using ctrl(2) by (rule ctrl_not_word)
    have notok: "takeWhile is_word_char (x # xs @ esc s @ d # u) \<notin> set tokens"
      using ctrl(3,4) token_hd by fastforce
    have "replace_from p (esc (a # s) @ d # u)
        = bslash # replace_from (Some bslash) (x # xs @ esc s @ d # u)"
      using ctrl(1) nwb by (simp add: replace_from_nonword)
    also have "replace_from (Some bslash) (x # xs @ esc s @ d # u)
        = x # replace_from (Some x) (xs @ esc s @ d # u)"
      using notok by (simp only: replace_from_Cons) simp
    also have "replace_from (Some x) (xs @ esc s @ d # u)
        = xs @ replace_from (if xs = [] then Some x else Some (last xs)) (esc s @ d # u)"
      using ctrl(3,5) by (intro replace_from_word_run) (simp_all add: wordy_def)
    also have "replace_from (if xs = [] then Some x else Some (last xs)) (esc s @ d # u)
        = esc (rewrite_from True s) @ d # replace_from (Some d) u"
      using Cons.IH [OF nw, of "if xs = [] then Some x else Some (last xs)"] ctrl(3,5)
      by (simp add: wordy_def)
    finally show ?thesis using ctrl nwa by simp
  qed
qed

lemma consed_Some [simp]: "consed c (Some (s, r)) = Some (c # s, r)"
  by (simp add: consed_def)

lemma parse_string_body_esc:
  "parse_string_body (esc s @ dquote # u) = Some (s, u)"
proof (induction s)
  case Nil
  then show ?case by simp
next
  case (Cons a s)
  consider (a) "a = CHR 0x08 \<or> a = CHR 0x09 \<or> a = CHR 0x0A \<or> a = CHR 0x0C \<or> a = CHR 0x0D"
    | (b) "a = dquote \<or> a = bslash"
    | (d) "\<not> (a = CHR 0x08 \<or> a = CHR 0x09 \<or> a = CHR 0x0A \<or> a = CHR 0x0C \<or> a = CHR 0x0D)"
          "a \<noteq> dquote" "a \<noteq> bslash" "is_ctrl a"
    | (e) "\<not> (a = CHR 0x08 \<or> a = CHR 0x09 \<or> a = CHR 0x0A \<or> a = CHR 0x0C \<or> a = CHR 0x0D)"
          "a \<noteq> dquote" "a \<noteq> bslash" "\<not> is_ctrl a"
    by blast
  then show ?case
  proof cases
    case a
    then show ?thesis using Cons
      by (auto simp: esc_char_def unescape_def dquote_def bslash_def)
  next
    case b
    then show ?thesis using Cons
      by (auto simp: esc_char_def unescape_def dquote_def bslash_def)
  next
    case d
    from d(4) have lt: "(of_char a :: nat) div 16 < 16" "(of_char a :: nat) mod 16 < 16"
      "(of_char a :: nat) < 256"
      by (auto simp: is_ctrl_def)
    have h0: "hex_val CHR ''0'' = Some 0" by (simp add: hex_val_def)
    have "hex4 CHR ''0'' CHR ''0'' (hex_digit ((of_char a :: nat) div 16))
            (hex_digit ((of_char a :: nat) mod 16)) = Some a"
      using lt by (simp add: hex4_def h0 hex_val_hex_digit)
    moreover have "esc_char a = [bslash, CHR ''u'', CHR ''0'', CHR ''0'',
              hex_digit ((of_char a :: nat) div 16), hex_digit ((of_char a :: nat) mod 16)]"
      using d by (simp add: esc_char_def is_ctrl_def)
    ultimately show ?thesis using Cons
      by (simp add: dquote_def bslash_def)
  next
    case e
    then show ?thesis using Cons
      by (simp add: esc_char_def is_ctrl_def)
  qed
qed

section \<open>The pipeline on a query value\<close>

lemma replace_quote:
  "replace_from p (quote_json s @ u) = quote_json (rewrite s) @ replace_from None u"
proof -
  have "replace_from p (quote_json s @ u)
      = dquote # replace_from (Some dquote) (esc s @ dquote # u)"
    by (simp add: quote_json_def replace_from_nonword)
  also have "replace_from (Some dquote) (esc s @ dquote # u)
      = esc (rewrite s) @ dquote # replace_from (Some dquote) u"
    by (simp add: replace_esc wordy_def rewrite_def)
  also have "replace_from (Some dquote) u = replace_from None u"
    by (rule replace_from_wordy_cong) (simp add: wordy_def)
  finally show ?thesis by (simp add: quote_json_def)
qed

lemma replace_mark:
  "\<not> is_word_char d \<Longrightarrow> replace_from p (d # u) = d # replace_from None u"
proof -
  assume d: "\<not> is_word_char d"
  have "replace_from (Some d) u = replace_from None u"
    using d by (intro replace_from_wordy_cong) (simp add: wordy_def)
  with d show ?thesis by (simp add: replace_from_nonword)
qed

lemma nonword_punct [simp]:
  "\<not> is_word_char CHR ''[''" "\<not> is_word_char CHR '']''" "\<not> is_word_char CHR ''{''"
  "\<not> is_word_char CHR ''}''" "\<not> is_word_char CHR '',''" "\<not> is_word_char CHR '':''"
  by (simp_all add: is_word_char_def)

lemma replace_stringify_mutual:
  "replace_from p (stringify j @ u) = stringify (map_json rewrite j) @ replace_from None u"
  "\<not> is_word_char d \<Longrightarrow> replace_from p (stringify_elems xs @ d # u)
      = stringify_elems (map_elems rewrite xs) @ d # replace_from None u"
  "\<not> is_word_char d \<Longrightarrow> replace_from p (stringify_members ms @ d # u)
      = stringify_members (map_members rewrite ms) @ d # replace_from None u"
proof (induction j and xs and ms arbitrary: p u and p u d and p u d
       rule: stringify_stringify_elems_stringify_members.induct)
  case (1 s)
  show ?case by (simp add: replace_quote)
next
  case (2 xs)
  show ?case by (simp add: replace_mark "2.IH")
next
  case (3 ms)
  show ?case by (simp add: replace_mark "3.IH")
next
  case 4
  then show ?case by (simp add: replace_mark)
next
  case (5 x)
  then show ?case by (simp add: replace_mark)
next
  case (6 x y xs)
  have "replace_from p (stringify_elems (x # y # xs) @ d # u)
      = stringify (map_json rewrite x) @ replace_from None (CHR '','' # stringify_elems (y # xs) @ d # u)"
    by (simp add: "6.IH"(1))
  also have "replace_from None (CHR '','' # stringify_elems (y # xs) @ d # u)
      = CHR '','' # stringify_elems (map_elems rewrite (y # xs)) @ d # replace_from None u"
    using "6.prems" by (simp add: replace_mark "6.IH"(2))
  finally show ?case by simp
next
  case 7
  then show ?case by (simp add: replace_mark)
next
  case (8 k v)
  have "replace_from p (stringify_members [(k, v)] @ d # u)
      = quote_json (rewrite k) @ replace_from None (CHR '':'' # stringify v @ d # u)"
    by (simp add: replace_quote)
  also have "replace_from None (CHR '':'' # stringify v @ d # u)
      = CHR '':'' # stringify (map_json rewrite v) @ d # replace_from None u"
    using "8.prems" by (simp add: replace_mark "8.IH")
  finally show ?case by simp
next
  case (9 k v m ms)
  have "replace_from p (stringify_members ((k, v) # m # ms) @ d # u)
      = quote_json (rewrite k) @ replace_from None
          (CHR '':'' # stringify v @ CHR '','' # stringify_members (m # ms) @ d # u)"
    by (simp add: replace_quote)
  also have "replace_from None
          (CHR '':'' # stringify v @ CHR '','' # stringify_members (m # ms) @ d # u)
      = CHR '':'' # stringify (map_json rewrite v) @ CHR '','' #
          stringify_members (map_members rewrite (m # ms)) @ d # replace_from None u"
    using "9.prems" by (simp add: replace_mark "9.IH")
  finally show ?case by (cases m) simp
qed

lemma replace_ops_stringify:
  "replace_ops (stringify j) = stringify (map_json rewrite j)"
  using replace_stringify_mutual(1) [of None j "[]"] by (simp add: replace_ops_def)

lemma marks_neq [simp]:
  "CHR ''['' \<noteq> dquote" "CHR ''{'' \<noteq> dquote" "CHR '']'' \<noteq> dquote" "CHR ''}'' \<noteq> dquote"
  "dquote \<noteq> CHR ''[''" "dquote \<noteq> CHR ''{''" "dquote \<noteq> CHR '']''" "dquote \<noteq> CHR ''}''"
  "dquote \<noteq> bslash" "bslash \<noteq> dquote"
  by (simp_all add: dquote_def bslash_def)

declare parse_string_body.simps(2) [simp del]

lemma parse_string_body_quote [simp]: "parse_string_body (dquote # u) = Some ([], u)"
  by (simp add: parse_string_body.simps(2))

lemma obj_of_members_Nil [simp]: "obj_of_members [] = []"
  by (simp add: obj_of_members_def)

lemma quote_json_hd: "quote_json s = dquote # esc s @ [dquote]"
  by (simp add: quote_json_def)

lemma stringify_hd:
  "\<exists>c r. stringify j = c # r \<and> c \<noteq> CHR '']'' \<and> c \<noteq> CHR ''}''"
  by (cases j) (simp_all add: quote_json_def)

lemma stringify_elems_hd:
  "xs \<noteq> [] \<Longrightarrow> \<exists>c r. stringify_elems xs = c # r \<and> c \<noteq> CHR '']''"
proof (cases xs)
  case Nil
  assume "xs \<noteq> []"
  with Nil show ?thesis by simp
next
  case (Cons x ys)
  obtain c r where "stringify x = c # r" "c \<noteq> CHR '']''" using stringify_hd by blast
  with Cons show ?thesis by (cases ys) auto
qed

lemma stringify_members_hd:
  "ms \<noteq> [] \<Longrightarrow> \<exists>r. stringify_members ms = dquote # r"
proof (cases ms)
  case Nil
  assume "ms \<noteq> []"
  with Nil show ?thesis by simp
next
  case (Cons m ys)
  then show ?thesis by (cases m; cases ys) (auto simp: quote_json_def)
qed

lemma parse_roundtrip_mutual:
  "length (stringify j) < n \<Longrightarrow> parse_value n (stringify j @ u) = Some (norm_json j, u)"
  "xs \<noteq> [] \<Longrightarrow> length (stringify_elems xs) + 1 < n \<Longrightarrow>
     parse_elems n (stringify_elems xs @ CHR '']'' # u) = Some (norm_elems xs, u)"
  "ms \<noteq> [] \<Longrightarrow> length (stringify_members ms) + 1 < n \<Longrightarrow>
     parse_members n (stringify_members ms @ CHR ''}'' # u) = Some (norm_members ms, u)"
proof (induction j and xs and ms arbitrary: n u and n u and n u
       rule: stringify_stringify_elems_stringify_members.induct)
  case (1 s)
  then obtain m where n: "n = Suc m" by (cases n) auto
  show ?case by (simp add: n quote_json_def parse_string_body_esc)
next
  case (2 xs)
  then obtain m where n: "n = Suc m" by (cases n) auto
  show ?case
  proof (cases "xs = []")
    case True
    then show ?thesis by (simp add: n)
  next
    case False
    then obtain c r where cr: "stringify_elems xs = c # r" "c \<noteq> CHR '']''"
      using stringify_elems_hd by blast
    have "parse_elems m (stringify_elems xs @ CHR '']'' # u) = Some (norm_elems xs, u)"
      using "2.prems" by (intro "2.IH" False) (simp add: n)
    then show ?thesis using cr by (simp add: n)
  qed
next
  case (3 ms)
  then obtain m where n: "n = Suc m" by (cases n) auto
  show ?case
  proof (cases "ms = []")
    case True
    then show ?thesis by (simp add: n)
  next
    case False
    then obtain r where cr: "stringify_members ms = dquote # r"
      using stringify_members_hd by blast
    have "parse_members m (stringify_members ms @ CHR ''}'' # u) = Some (norm_members ms, u)"
      using "3.prems" by (intro "3.IH" False) (simp add: n)
    then show ?thesis using cr by (simp add: n)
  qed
next
  case 4
  then show ?case by simp
next
  case (5 x)
  then obtain m where n: "n = Suc m" by (cases n) auto
  have "parse_value m (stringify x @ CHR '']'' # u) = Some (norm_json x, CHR '']'' # u)"
    using "5.prems" by (intro "5.IH") (simp add: n)
  then show ?case by (simp add: n)
next
  case (6 x y xs)
  then obtain m where n: "n = Suc m" by (cases n) auto
  have "parse_value m (stringify x @ CHR '','' # stringify_elems (y # xs) @ CHR '']'' # u)
      = Some (norm_json x, CHR '','' # stringify_elems (y # xs) @ CHR '']'' # u)"
    using "6.prems" by (intro "6.IH"(1)) (simp add: n)
  moreover have "parse_elems m (stringify_elems (y # xs) @ CHR '']'' # u)
      = Some (norm_elems (y # xs), u)"
    using "6.prems" by (intro "6.IH"(2)) (simp_all add: n)
  ultimately show ?case by (simp add: n)
next
  case 7
  then show ?case by simp
next
  case (8 k v)
  then obtain m where n: "n = Suc m" by (cases n) auto
  have "parse_value m (stringify v @ CHR ''}'' # u) = Some (norm_json v, CHR ''}'' # u)"
    using "8.prems" by (intro "8.IH") (simp add: n)
  then show ?case by (simp add: n quote_json_def parse_string_body_esc)
next
  case (9 k v p ms)
  then obtain m where n: "n = Suc m" by (cases n) auto
  have "parse_value m (stringify v @ CHR '','' # stringify_members (p # ms) @ CHR ''}'' # u)
      = Some (norm_json v, CHR '','' # stringify_members (p # ms) @ CHR ''}'' # u)"
    using "9.prems" by (intro "9.IH"(1)) (simp add: n)
  moreover have "parse_members m (stringify_members (p # ms) @ CHR ''}'' # u)
      = Some (norm_members (p # ms), u)"
    using "9.prems" by (intro "9.IH"(2)) (simp_all add: n)
  ultimately show ?case by (simp add: n quote_json_def parse_string_body_esc)
qed

lemma JSON_parse_stringify: "JSON_parse (stringify j) = Inr (norm_json j)"
  using parse_roundtrip_mutual(1) [of j "Suc (length (stringify j))" "[]"]
  by (simp add: JSON_parse_def)

lemma filter_pipeline:
  "JSON_parse (replace_ops (stringify j)) = Inr (norm_json (map_json rewrite j))"
  by (simp add: replace_ops_stringify JSON_parse_stringify)

section \<open>The rewrite is injective, and well-formed queries stay well-formed\<close>

lemma takeWhile_rewrite_True:
  "takeWhile is_word_char (rewrite_from True s) = takeWhile is_word_char s"
  by (induction s) simp_all

lemma takeWhile_rewrite_False:
  "takeWhile is_word_char (rewrite_from False s) \<notin> set tokens"
proof (cases s)
  case Nil
  then show ?thesis by simp
next
  case (Cons c r)
  show ?thesis
  proof (cases "takeWhile is_word_char (c # r) \<in> set tokens")
    case True
    then show ?thesis using Cons by (simp add: is_word_char_def)
  next
    case False
    then show ?thesis using Cons by (cases "is_word_char c") (simp_all add: takeWhile_rewrite_True)
  qed
qed

lemma unrewrite_rewrite_from: "unrewrite (rewrite_from w s) = s"
proof (induction s arbitrary: w)
  case Nil
  then show ?case by simp
next
  case (Cons c r)
  show ?case
  proof (cases "\<not> w \<and> takeWhile is_word_char (c # r) \<in> set tokens")
    case True
    then have c: "is_word_char c" by (auto split: if_splits)
    then have nd: "c \<noteq> CHR ''$''" by (auto simp: is_word_char_def)
    have "takeWhile is_word_char (c # rewrite_from True r) = takeWhile is_word_char (c # r)"
      using c by (simp add: takeWhile_rewrite_True)
    with True c nd show ?thesis by (simp add: Cons.IH)
  next
    case False
    show ?thesis
    proof (cases "c = CHR ''$''")
      case d: True
      then have "\<not> is_word_char c" "\<not> is_ctrl c" by (simp_all add: is_word_char_def is_ctrl_def)
      with False d show ?thesis
        using takeWhile_rewrite_False [of r] by (simp add: Cons.IH)
    next
      case d: False
      with False show ?thesis by (simp add: Cons.IH)
    qed
  qed
qed

lemma unrewrite_rewrite [simp]: "unrewrite (rewrite s) = s"
  by (simp add: rewrite_def unrewrite_rewrite_from)

lemma inj_rewrite: "inj rewrite"
  by (rule inj_on_inverseI [of _ unrewrite]) simp

lemma rewrite_token: "t \<in> set tokens \<Longrightarrow> rewrite t = CHR ''$'' # t"
  by (auto simp: tokens_def rewrite_def is_word_char_def)

lemma map_members_fst: "map fst (map_members f ms) = map f (map fst ms)"
  by (induction ms) auto

lemma wf_map_mutual:
  "wf_json j \<Longrightarrow> wf_json (map_json rewrite j)"
  "wf_elems xs \<Longrightarrow> wf_elems (map_elems rewrite xs)"
  "wf_members ms \<Longrightarrow> wf_members (map_members rewrite ms)"
proof (induction j and xs and ms rule: wf_json_wf_elems_wf_members.induct)
  case (3 ms)
  have inj: "inj_on rewrite (set (map fst ms))"
    by (rule inj_on_subset [OF inj_rewrite]) simp
  have "distinct (map rewrite (map fst ms)) = distinct (map fst ms)"
    unfolding distinct_map [of rewrite "map fst ms"] using inj by blast
  with 3 show ?case
    by (simp add: map_members_fst del: map_map)
qed simp_all

lemma obj_of_members_distinct_aux:
  "distinct (map fst (acc @ ms)) \<Longrightarrow>
   foldl (\<lambda>obj (k, v). AList.update k v obj) acc ms = acc @ ms"
proof (induction ms arbitrary: acc)
  case Nil
  then show ?case by simp
next
  case (Cons m ms)
  obtain k v where m: "m = (k, v)" by (cases m)
  from Cons.prems have "k \<notin> fst ` set acc" by (auto simp: m)
  then have u: "AList.update k v acc = acc @ [(k, v)]"
    by (induction acc) auto
  from Cons.prems have "distinct (map fst ((acc @ [(k, v)]) @ ms))" by (simp add: m)
  from Cons.IH [OF this] show ?case by (simp add: m u)
qed

lemma obj_of_members_distinct:
  "distinct (map fst ms) \<Longrightarrow> obj_of_members ms = ms"
  using obj_of_members_distinct_aux [of "[]" ms] by (simp add: obj_of_members_def)

lemma norm_members_fst: "map fst (norm_members ms) = map fst ms"
  by (induction ms) auto

lemma norm_wf_mutual:
  "wf_json j \<Longrightarrow> norm_json j = j"
  "wf_elems xs \<Longrightarrow> norm_elems xs = xs"
  "wf_members ms \<Longrightarrow> norm_members ms = ms"
proof (induction j and xs and ms rule: wf_json_wf_elems_wf_members.induct)
  case (3 ms)
  then show ?case by (simp add: obj_of_members_distinct)
qed simp_all

lemma delete_keys: "map fst (AList.delete k q) = removeAll k (map fst q)"
  by (induction q) (auto simp: AList.delete_eq)

lemma wf_members_delete: "wf_members q \<Longrightarrow> wf_members (AList.delete k q)"
  by (induction q) (auto simp: AList.delete_eq)

lemma wf_delete: "wf_json (JObj q) \<Longrightarrow> wf_json (JObj (AList.delete k q))"
  by (simp add: wf_members_delete distinct_delete)

lemma wf_strip: "wf_json (JObj q) \<Longrightarrow> wf_json (JObj (strip_reserved q))"
  by (simp add: strip_reserved_def removeFields_def wf_members_delete distinct_delete
      del: wf_json.simps) (intro wf_delete)

lemma strip_reserved_eq:
  "strip_reserved q = filter (\<lambda>(k, v). k \<notin> set removeFields) q"
  by (induction q) (auto simp: strip_reserved_def removeFields_def AList.delete_eq)

lemma build_filter_norm:
  "build_filter q = Inr (norm_json (map_json rewrite (JObj (strip_reserved q))))"
  by (simp only: build_filter_def filter_pipeline)

lemma build_filter_wf:
  "wf_json (JObj q) \<Longrightarrow> build_filter q = Inr (JObj (map_members rewrite (strip_reserved q)))"
  using norm_wf_mutual(1) [OF wf_map_mutual(1) [OF wf_strip]]
  by (simp add: build_filter_norm)

section \<open>The photo upload: order of the checks and the size limit\<close>



text \<open>
  Claim C10. The upload handler checks in a fixed order: that the bootcamp exists, that
  files were uploaded, that the file is an image, and only then its size. So a request that
  names a bootcamp the lookup does not find is answered with the not-found error of status
  404 whatever it uploads; with the bootcamp found and no upload the answer is the 400
  "Please upload a file"; and a file that is not an image is refused as such whatever its
  size.
\<close>

theorem upload_checks_in_order:
  "(findById deps rid = Inr None \<longrightarrow>
      bootcampPhotoUpload deps ev rid files = Next (''Bootcamp id '' @ rid @ '' not found'') 404)
   \<and> (\<forall>b. findById deps rid = Inr (Some b) \<longrightarrow> files = None \<longrightarrow>
      bootcampPhotoUpload deps ev rid files = Next ''Please upload a file'' 400)
   \<and> (\<forall>b fs file. findById deps rid = Inr (Some b) \<longrightarrow> files = Some fs \<longrightarrow>
        map_of fs ''file'' = Some file \<longrightarrow> \<not> prefix ''image'' (mimetype file) \<longrightarrow>
      bootcampPhotoUpload deps ev rid files = Next ''Please upload an image file'' 400)"
  by (simp add: bootcampPhotoUpload_def)

text \<open>
  An unknown bootcamp, once with no upload and once with a text file twice the limit: the
  answer is the 404 both times.
\<close>

theorem upload_checks_in_order_witness:
  "bootcampPhotoUpload
     \<lparr>findById = (\<lambda>i. Inr None), id_text = (\<lambda>b. b), path_ext = (\<lambda>n. ''.jpg''),
      mv = (\<lambda>p. None :: unit option), update_photo = (\<lambda>i n. None)\<rparr>
     \<lparr>MAX_FILE_UPLOAD = Some ''1000000'', FILE_UPLOAD_PATH = Some ''./public/uploads''\<rparr>
     ''5d713995b721c3bb38c1f5d0'' None
   = Next ''Bootcamp id 5d713995b721c3bb38c1f5d0 not found'' 404
   \<and> bootcampPhotoUpload
     \<lparr>findById = (\<lambda>i. Inr None), id_text = (\<lambda>b. b), path_ext = (\<lambda>n. ''.jpg''),
      mv = (\<lambda>p. None :: unit option), update_photo = (\<lambda>i n. None)\<rparr>
     \<lparr>MAX_FILE_UPLOAD = Some ''1000000'', FILE_UPLOAD_PATH = Some ''./public/uploads''\<rparr>
     ''5d713995b721c3bb38c1f5d0''
     (Some [(''file'', \<lparr>file_name = ''notes.txt'', mimetype = ''text/plain'', file_size = 2000000\<rparr>)])
   = Next ''Bootcamp id 5d713995b721c3bb38c1f5d0 not found'' 404"
  using upload_checks_in_order
    [of "\<lparr>findById = (\<lambda>i. Inr None), id_text = (\<lambda>b. b), path_ext = (\<lambda>n. ''.jpg''),
      mv = (\<lambda>p. None :: unit option), update_photo = (\<lambda>i n. None)\<rparr>"
        "''5d713995b721c3bb38c1f5d0''"]
  by simp



section \<open>The list endpoint: what the filter is\<close>

lemma getBootcamps_Inr:
  assumes "getBootcamps q coll = Inr r"
  shows "build_filter q = Inr (q_filter r)"
    and "q_skip r = (page_of q - 1) * limit_of q"
    and "q_limit r = limit_of q"
    and "next_page r = (if page_of q * limit_of q < int (length coll)
          then Some \<lparr>pg_page = page_of q + 1, pg_limit = limit_of q\<rparr> else None)"
    and "prev_page r = (if 0 < (page_of q - 1) * limit_of q
          then Some \<lparr>pg_page = page_of q - 1, pg_limit = limit_of q\<rparr> else None)"
  using assms
  by (auto simp: getBootcamps_def Let_def split: sum.splits)

lemma rewrite_from_True_word:
  "\<forall>c \<in> set s. is_word_char c \<Longrightarrow> rewrite_from True s = s"
  by (induction s) simp_all

lemma rewrite_word_unchanged:
  assumes "\<forall>c \<in> set s. is_word_char c" and "s \<notin> set tokens"
  shows "rewrite s = s"
proof (cases s)
  case Nil
  then show ?thesis by (simp add: rewrite_def)
next
  case (Cons c r)
  from assms(1) Cons have tw: "takeWhile is_word_char (c # r) = c # r"
    by (simp only: takeWhile_eq_all_conv)
  from assms Cons have nt: "c # r \<notin> set tokens" and c: "is_word_char c" by simp_all
  have "rewrite_from False (c # r) = c # rewrite_from True r"
    unfolding rewrite_from.simps(2) tw using nt c by simp
  also have "rewrite_from True r = r"
    using assms(1) Cons by (simp add: rewrite_from_True_word)
  finally show ?thesis using Cons by (simp add: rewrite_def)
qed

lemma rewrite_eq_replace_from:
  "\<forall>c \<in> set s. \<not> is_ctrl c \<Longrightarrow> rewrite_from (wordy p) s = replace_from p s"
proof (induction s arbitrary: p)
  case Nil
  then show ?case by simp
next
  case (Cons c r)
  then have "rewrite_from (wordy (Some c)) r = replace_from (Some c) r" by simp
  with Cons.prems show ?case
    by (simp add: replace_from_Cons wordy_def del: takeWhile.simps)
qed

lemma rewrite_eq_replace_ops:
  "\<forall>c \<in> set s. \<not> is_ctrl c \<Longrightarrow> rewrite s = replace_ops s"
  using rewrite_eq_replace_from [of s None] by (simp add: rewrite_def replace_ops_def wordy_def)

text \<open>
  Claim C1, as amended. The rewrite works on the serialized text and knows neither keys nor
  values: for a well-formed query, the filter is the query without the reserved keys, with
  \<open>rewrite\<close> applied to every property name and every string at every depth. \<open>rewrite\<close>
  turns each of the five tokens \<open>gt\<close>, \<open>gte\<close>, \<open>lt\<close>, \<open>lte\<close>, \<open>in\<close> into the token with a dollar
  sign before it, and leaves every other single word (a string of word characters that is
  not a token) as it is. A token standing as a word inside a longer string, or as a
  property name, is rewritten as well.
\<close>

theorem filter_rewrites_operators:
  assumes "wf_json (JObj q)"
  shows "build_filter q = Inr (JObj (map_members rewrite (strip_reserved q)))
       \<and> (\<forall>t \<in> set tokens. rewrite t = CHR ''$'' # t)
       \<and> (\<forall>s. (\<forall>c \<in> set s. is_word_char c) \<longrightarrow> s \<notin> set tokens \<longrightarrow> rewrite s = s)"
  using assms by (simp add: build_filter_wf rewrite_token rewrite_word_unchanged)

text \<open>A query with two operators, a reserved key and an exact-match value.\<close>

theorem filter_rewrites_operators_witness:
  "wf_json (JObj
     [(''averageCost'', JObj [(''lte'', JStr ''10000'')]), (''select'', JStr ''name''),
      (''careers'', JObj [(''in'', JStr ''Business'')]), (''housing'', JStr ''true'')])
   \<and> build_filter
     [(''averageCost'', JObj [(''lte'', JStr ''10000'')]), (''select'', JStr ''name''),
      (''careers'', JObj [(''in'', JStr ''Business'')]), (''housing'', JStr ''true'')]
   = Inr (JObj
     [(''averageCost'', JObj [(''$lte'', JStr ''10000'')]),
      (''careers'', JObj [(''$in'', JStr ''Business'')]), (''housing'', JStr ''true'')])"
proof -
  have wf: "wf_json (JObj [(''averageCost'', JObj [(''lte'', JStr ''10000'')]), (''select'', JStr ''name''),
      (''careers'', JObj [(''in'', JStr ''Business'')]), (''housing'', JStr ''true'')])"
    by simp
  have m: "map_members rewrite (strip_reserved
     [(''averageCost'', JObj [(''lte'', JStr ''10000'')]), (''select'', JStr ''name''),
      (''careers'', JObj [(''in'', JStr ''Business'')]), (''housing'', JStr ''true'')])
    = [(''averageCost'', JObj [(''$lte'', JStr ''10000'')]),
      (''careers'', JObj [(''$in'', JStr ''Business'')]), (''housing'', JStr ''true'')]"
    by code_simp
  show ?thesis using wf filter_rewrites_operators [OF wf] by (simp only: m simp_thms)
qed

text \<open>
  The claim as stated fails: the value \<open>check in\<close> is not a comparison token and is changed,
  and the field name \<open>in\<close> is changed too.
\<close>

theorem filter_rewrite_counterexample:
  "''check in'' \<notin> set tokens
   \<and> build_filter [(''name'', JStr ''check in'')] = Inr (JObj [(''name'', JStr ''check $in'')])
   \<and> build_filter [(''in'', JStr ''stock'')] = Inr (JObj [(''$in'', JStr ''stock'')])"
  by code_simp

section \<open>The list endpoint: reserved keys\<close>

lemma update_keys_set: "fst ` set (AList.update k v al) = insert k (fst ` set al)"
  by (induction al) auto

lemma obj_of_members_keys_aux:
  "fst ` set (foldl (\<lambda>obj (k, v). AList.update k v obj) acc ms) = fst ` set acc \<union> fst ` set ms"
proof (induction ms arbitrary: acc)
  case Nil
  show ?case by simp
next
  case (Cons m ms)
  obtain k v where m: "m = (k, v)" by (cases m)
  have "fst ` set (foldl (\<lambda>obj (k, v). AList.update k v obj) (AList.update k v acc) ms)
      = fst ` set (AList.update k v acc) \<union> fst ` set ms"
    by (rule Cons.IH)
  then show ?case by (simp add: m update_keys_set)
qed

lemma obj_of_members_keys: "fst ` set (obj_of_members ms) = fst ` set ms"
  by (simp add: obj_of_members_def obj_of_members_keys_aux)

lemma norm_members_keys: "fst ` set (norm_members ms) = fst ` set ms"
  using norm_members_fst [of ms] by (metis set_map)

lemma map_members_keys: "fst ` set (map_members f ms) = f ` fst ` set ms"
  using map_members_fst [of f ms] by (metis set_map)

lemma strip_reserved_keys: "fst ` set (strip_reserved q) = fst ` set q - set removeFields"
  by (auto simp: strip_reserved_eq)

lemma rewrite_reserved: "rewrite k \<in> set removeFields \<Longrightarrow> k \<in> set removeFields"
proof -
  assume a: "rewrite k \<in> set removeFields"
  have "\<forall>r \<in> set removeFields. unrewrite r = r"
    by (simp add: removeFields_def)
  with a have "unrewrite (rewrite k) = rewrite k" by blast
  with a show ?thesis by simp
qed

lemma build_filter_keys:
  "\<exists>ms. build_filter q = Inr (JObj ms)
     \<and> fst ` set ms = rewrite ` (fst ` set q - set removeFields)"
  by (simp add: build_filter_norm obj_of_members_keys norm_members_keys map_members_keys
      strip_reserved_keys)

text \<open>
  Claim C5. For every query, the filter handed to the storage layer is an object none of
  whose fields is one of the reserved keys \<open>select\<close>, \<open>sort\<close>, \<open>page\<close>, \<open>limit\<close>, whether or
  not the query has them. (The fields are the top-level property names; the rewrite cannot
  produce a reserved key from another key.)
\<close>

theorem reserved_keys_not_filtered:
  "\<exists>ms. build_filter q = Inr (JObj ms) \<and> set removeFields \<inter> fst ` set ms = {}
     \<and> (\<forall>r. getBootcamps q coll = Inr r \<longrightarrow> q_filter r = JObj ms)"
proof -
  obtain ms where ms: "build_filter q = Inr (JObj ms)"
    "fst ` set ms = rewrite ` (fst ` set q - set removeFields)"
    using build_filter_keys by blast
  have "set removeFields \<inter> fst ` set ms = {}"
    unfolding ms(2) using rewrite_reserved by blast
  moreover have "\<forall>r. getBootcamps q coll = Inr r \<longrightarrow> q_filter r = JObj ms"
    using ms(1) getBootcamps_Inr(1) by fastforce
  ultimately show ?thesis using ms(1) by blast
qed

text \<open>A query with all four reserved keys and one data field.\<close>

theorem reserved_keys_not_filtered_witness:
  "build_filter
     [(''select'', JStr ''name''), (''sort'', JStr ''-name''), (''page'', JStr ''2''),
      (''limit'', JStr ''10''), (''city'', JStr ''Boston'')]
   = Inr (JObj [(''city'', JStr ''Boston'')])
   \<and> set removeFields \<inter> fst ` set [(''city'', JStr ''Boston'')] = {}"
proof -
  obtain ms where ms: "build_filter
     [(''select'', JStr ''name''), (''sort'', JStr ''-name''), (''page'', JStr ''2''),
      (''limit'', JStr ''10''), (''city'', JStr ''Boston'')] = Inr (JObj ms)"
    "set removeFields \<inter> fst ` set ms = {}"
    using reserved_keys_not_filtered
      [of "[(''select'', JStr ''name''), (''sort'', JStr ''-name''), (''page'', JStr ''2''),
            (''limit'', JStr ''10''), (''city'', JStr ''Boston'')]" "[] :: unit list"]
    by blast
  have "build_filter
     [(''select'', JStr ''name''), (''sort'', JStr ''-name''), (''page'', JStr ''2''),
      (''limit'', JStr ''10''), (''city'', JStr ''Boston'')]
   = Inr (JObj [(''city'', JStr ''Boston'')])"
    by code_simp
  with ms show ?thesis by simp
qed

section \<open>The list endpoint: no error from parsing\<close>

lemma string_valued_lookup:
  "string_valued q \<Longrightarrow> map_of q k = Some v \<Longrightarrow> \<exists>s. v = JStr s"
  by (induction q) (auto simp: string_valued_def split: if_splits json.splits)

lemma shape_param_string_valued:
  "string_valued q \<Longrightarrow> \<exists>x. shape_param (map_of q k) = Inr x"
proof (cases "map_of q k")
  case None
  then show ?thesis by (simp add: shape_param_def)
next
  case (Some v)
  assume "string_valued q"
  with Some obtain s where "v = JStr s" using string_valued_lookup by blast
  with Some show ?thesis by (simp add: shape_param_def)
qed

text \<open>
  Claim C6. For every query whose values are strings, the handler gets through the
  construction of the filter (serialize, rewrite, parse again) and the parsing of
  \<open>select\<close>, \<open>sort\<close>, \<open>page\<close> and \<open>limit\<close> without an error: the parse of the rewritten
  text always succeeds, and a malformed page or limit is replaced by its default.
\<close>

theorem list_parsing_never_raises:
  assumes "string_valued q"
  shows "\<exists>r. getBootcamps q coll = Inr r"
proof -
  obtain f where f: "build_filter q = Inr f" by (simp add: build_filter_norm)
  obtain sel where sel: "shape_param (map_of q ''select'') = Inr sel"
    using shape_param_string_valued [OF assms] by blast
  obtain srt where srt: "shape_param (map_of q ''sort'') = Inr srt"
    using shape_param_string_valued [OF assms] by blast
  show ?thesis by (simp add: getBootcamps_def f sel srt Let_def)
qed

text \<open>A query with a quotation mark, a backslash and a line feed in its strings.\<close>

theorem list_parsing_never_raises_witness:
  "string_valued [([CHR ''n'', CHR 0x22, CHR ''a''], JStr [CHR ''a'', CHR 0x5C, CHR 0x0A, CHR ''i'', CHR ''n'']),
                  (''page'', JStr ''x''), (''limit'', JStr [])]
   \<and> (\<exists>r. getBootcamps [([CHR ''n'', CHR 0x22, CHR ''a''], JStr [CHR ''a'', CHR 0x5C, CHR 0x0A, CHR ''i'', CHR ''n'']),
                  (''page'', JStr ''x''), (''limit'', JStr [])] ([] :: unit list) = Inr r)"
proof -
  have sv: "string_valued [([CHR ''n'', CHR 0x22, CHR ''a''], JStr [CHR ''a'', CHR 0x5C, CHR 0x0A, CHR ''i'', CHR ''n'']),
                  (''page'', JStr ''x''), (''limit'', JStr [])]"
    by (simp add: string_valued_def)
  show ?thesis using sv list_parsing_never_raises [OF sv] by simp
qed

section \<open>The list endpoint: pagination\<close>


lemma parseInt10_no_digit: "\<forall>c \<in> set s. \<not> is_digit c \<Longrightarrow> parseInt10 s = None"
proof -
  assume nd: "\<forall>c \<in> set s. \<not> is_digit c"
  define t where "t = dropWhile is_js_space s"
  define u where "u = (if t \<noteq> [] \<and> (hd t = CHR ''+'' \<or> hd t = CHR ''-'') then tl t else t)"
  have "set t \<subseteq> set s" unfolding t_def by (auto dest: set_dropWhileD)
  moreover have "set u \<subseteq> set t" unfolding u_def by (auto dest: list.set_sel(2))
  ultimately have "\<forall>c \<in> set u. \<not> is_digit c" using nd by blast
  then have "takeWhile is_digit u = []" by (cases u) auto
  then show ?thesis unfolding parseInt10_def Let_def u_def t_def by (simp only: refl if_True)
qed




lemma scenario_page2:
  "getBootcamps [(''page'', JStr ''2''), (''limit'', JStr ''10'')] (replicate 25 ()) =
     Inr \<lparr>q_filter = JObj [], q_select = None, q_sort = ''-createdAt'', q_skip = 10, q_limit = 10,
          next_page = Some \<lparr>pg_page = 3, pg_limit = 10\<rparr>,
          prev_page = Some \<lparr>pg_page = 1, pg_limit = 10\<rparr>\<rparr>"
  by code_simp

text \<open>
  Claim C2, as amended. For every request that the handler answers, \<open>pagination.next\<close> is
  present exactly when \<open>page * limit < totalEntries\<close>, where \<open>totalEntries\<close> is the number
  of all documents of the collection (\<^verbatim>\<open>countDocuments()\<close> is called without the filter),
  and when present it is \<open>{page: page + 1, limit}\<close>.
\<close>

theorem next_page_iff:
  assumes "getBootcamps q coll = Inr r"
  shows "next_page r =
           (if page_of q * limit_of q < int (length coll)
            then Some \<lparr>pg_page = page_of q + 1, pg_limit = limit_of q\<rparr> else None)"
  using assms by (rule getBootcamps_Inr(4))

text \<open>The scenario of the specification: page 2, limit 10, 25 documents.\<close>

theorem next_page_iff_witness:
  "getBootcamps [(''page'', JStr ''2''), (''limit'', JStr ''10'')] (replicate 25 ()) =
     Inr \<lparr>q_filter = JObj [], q_select = None, q_sort = ''-createdAt'', q_skip = 10, q_limit = 10,
          next_page = Some \<lparr>pg_page = 3, pg_limit = 10\<rparr>,
          prev_page = Some \<lparr>pg_page = 1, pg_limit = 10\<rparr>\<rparr>
   \<and> page_of [(''page'', JStr ''2''), (''limit'', JStr ''10'')]
     * limit_of [(''page'', JStr ''2''), (''limit'', JStr ''10'')] < int (length (replicate 25 ()))
   \<and> next_page \<lparr>q_filter = JObj [], q_select = None, q_sort = ''-createdAt'', q_skip = 10, q_limit = 10,
          next_page = Some \<lparr>pg_page = 3, pg_limit = 10\<rparr>,
          prev_page = Some \<lparr>pg_page = 1, pg_limit = 10\<rparr>\<rparr>
     = Some \<lparr>pg_page = page_of [(''page'', JStr ''2''), (''limit'', JStr ''10'')] + 1,
             pg_limit = limit_of [(''page'', JStr ''2''), (''limit'', JStr ''10'')]\<rparr>"
proof -
  have "page_of [(''page'', JStr ''2''), (''limit'', JStr ''10'')] = 2"
    "limit_of [(''page'', JStr ''2''), (''limit'', JStr ''10'')] = 10"
    by code_simp+
  then show ?thesis using scenario_page2 next_page_iff [OF scenario_page2] by simp
qed

text \<open>
  The claim as stated fails: with 26 documents of which none matches the filter, page 1 of
  25 is followed by a next page, although \<open>page * limit = 25\<close> is not below the number of
  matching records, which is 0.
\<close>

theorem next_page_counterexample:
  "getBootcamps [(''name'', JStr ''b'')] (replicate 26 (JObj [(''name'', JStr ''a'')])) =
     Inr \<lparr>q_filter = JObj [(''name'', JStr ''b'')], q_select = None, q_sort = ''-createdAt'',
          q_skip = 0, q_limit = 25,
          next_page = Some \<lparr>pg_page = 2, pg_limit = 25\<rparr>, prev_page = None\<rparr>
   \<and> length (filter (exact_match (JObj [(''name'', JStr ''b'')]))
               (replicate 26 (JObj [(''name'', JStr ''a'')]))) = 0"
  by code_simp

text \<open>
  Claim C4, as amended. For every request that the handler answers,
  \<open>skip = (page - 1) * limit\<close>, and \<open>pagination.prev\<close> is present exactly when \<open>skip > 0\<close>,
  as \<open>{page: page - 1, limit}\<close>; with a positive limit, \<open>skip > 0\<close> is the same as
  \<open>page > 1\<close>.
\<close>

theorem skip_and_prev_page:
  assumes "getBootcamps q coll = Inr r"
  shows "q_skip r = (page_of q - 1) * limit_of q
       \<and> prev_page r =
           (if 0 < q_skip r
            then Some \<lparr>pg_page = page_of q - 1, pg_limit = limit_of q\<rparr> else None)
       \<and> (0 < limit_of q \<longrightarrow> (0 < q_skip r \<longleftrightarrow> 1 < page_of q))"
  using getBootcamps_Inr(2,5) [OF assms] by (auto simp: zero_less_mult_iff)

text \<open>Page 2 of 10: the skip is 10 and the page is above 1.\<close>

theorem skip_and_prev_page_witness:
  "getBootcamps [(''page'', JStr ''2''), (''limit'', JStr ''10'')] (replicate 25 ()) =
     Inr \<lparr>q_filter = JObj [], q_select = None, q_sort = ''-createdAt'', q_skip = 10, q_limit = 10,
          next_page = Some \<lparr>pg_page = 3, pg_limit = 10\<rparr>,
          prev_page = Some \<lparr>pg_page = 1, pg_limit = 10\<rparr>\<rparr>
   \<and> q_skip \<lparr>q_filter = JObj [], q_select = None, q_sort = ''-createdAt'', q_skip = 10, q_limit = 10,
          next_page = Some \<lparr>pg_page = 3, pg_limit = 10\<rparr>,
          prev_page = Some \<lparr>pg_page = 1, pg_limit = 10\<rparr>\<rparr>
     = (page_of [(''page'', JStr ''2''), (''limit'', JStr ''10'')] - 1)
         * limit_of [(''page'', JStr ''2''), (''limit'', JStr ''10'')]
   \<and> 1 < page_of [(''page'', JStr ''2''), (''limit'', JStr ''10'')]"
proof -
  have "page_of [(''page'', JStr ''2''), (''limit'', JStr ''10'')] = 2"
    "limit_of [(''page'', JStr ''2''), (''limit'', JStr ''10'')] = 10"
    by code_simp+
  then show ?thesis using scenario_page2 skip_and_prev_page [OF scenario_page2] by simp
qed

text \<open>
  The claim as stated fails: with page 2 and limit \<open>-5\<close> the skip is \<open>-5\<close>, and there is no
  previous page although the page is above 1.
\<close>

theorem prev_page_counterexample:
  "getBootcamps [(''page'', JStr ''2''), (''limit'', JStr ''-5'')] (replicate 3 ()) =
     Inr \<lparr>q_filter = JObj [], q_select = None, q_sort = ''-createdAt'',
          q_skip = - 5, q_limit = - 5,
          next_page = Some \<lparr>pg_page = 3, pg_limit = - 5\<rparr>, prev_page = None\<rparr>
   \<and> 1 < page_of [(''page'', JStr ''2''), (''limit'', JStr ''-5'')]"
  by code_simp

section \<open>The radius endpoint\<close>

lemma to_number_abc: "to_number ''abc'' = NaN"
  by (simp add: to_number_def trim_js_def is_js_space_def non_decimal_def unsigned_decimal_def
      is_digit_def digits_value_def exponent_part_def)

text \<open>
  Claim C7, as amended. The radius endpoint does not validate the distance. With a
  distance that is not numeric the angular radius is \<^verbatim>\<open>NaN\<close>, the sphere filter with that
  radius is handed to the storage layer, and the handler answers with what the storage
  layer returns: status 200 with the documents found, or the storage layer's own rejection.
\<close>

theorem radius_not_validated:
  assumes "to_number distance = NaN"
    and "geocode zipcode = Inr (l # ls)"
  shows "getBootcampsInRadius geocode find_docs zipcode distance =
           (case find_docs \<lparr>center_lng = longitude l, center_lat = latitude l, radius = NaN\<rparr> of
              Inl e \<Rightarrow> Rejects e
            | Inr ds \<Rightarrow> Json 200 \<lparr>found_count = length ds, found_data = ds\<rparr>)"
  using assms by (simp add: getBootcampsInRadius_def num_div_def)

text \<open>A storage layer that rejects a radius that is not a number.\<close>

theorem radius_not_validated_witness:
  "to_number ''abc'' = NaN
   \<and> getBootcampsInRadius
     (\<lambda>z. Inr [\<lparr>latitude = 42 :: int, longitude = - 71\<rparr>])
     (\<lambda>f. if radius f = NaN then Inl () else Inr [f]) ''02118'' ''abc''
   = Rejects ()"
  using radius_not_validated
    [of "''abc''" "\<lambda>z. Inr [\<lparr>latitude = 42 :: int, longitude = - 71\<rparr>]" "''02118''"
        "\<lparr>latitude = 42 :: int, longitude = - 71\<rparr>" "[]"
        "\<lambda>f. if radius f = NaN then Inl () else Inr [f]"]
  by (simp add: to_number_abc)

text \<open>
  The claim as stated fails: with a storage layer that answers with the filter it was
  given, the distance \<open>abc\<close> reaches it as the radius \<^verbatim>\<open>NaN\<close>, and the answer has status
  200.
\<close>

theorem radius_counterexample:
  "getBootcampsInRadius
     (\<lambda>z. Inr [\<lparr>latitude = 42 :: int, longitude = - 71\<rparr>])
     (\<lambda>f. Inr [f] :: unit + int sphere_filter list) ''02118'' ''abc''
   = Json 200 \<lparr>found_count = 1,
        found_data = [\<lparr>center_lng = - 71, center_lat = 42, radius = NaN\<rparr>]\<rparr>"
  by (simp add: getBootcampsInRadius_def num_div_def to_number_abc)

end
